theory Spec2Isabelle
  imports
    Complex_Main
    "HOL-Library.AList"
    "HOL-Library.Char_ord"
    "HOL-Library.List_Lexorder"
    "HOL-Library.Log_Nat"
    "HOL-Library.Product_Lexorder"
    "HOL-Library.Sublist"
begin

section \<open>Configuration (config.py)\<close>

text \<open>
  A Python string is modelled by its UTF-8 encoding, a list of 8-bit characters.  Equality,
  concatenation, the order of two strings (UTF-8 keeps the order of the code points), and
  the search for a text of ASCII characters are the same on the string and on its encoding.
  A character beyond ASCII is a sequence of two to four elements of the list.

  Python dictionaries keep their keys in insertion order.  They are modelled as association
  lists: \<open>map_of\<close> is the lookup, \<open>AList.update\<close> is the assignment \<^verbatim>\<open>d[k] = v\<close>
  (an existing key keeps its position, a new key goes to the end).  The dictionary literals
  of config.py have pairwise different keys, so \<open>map_of\<close> on the literal is the dictionary.
\<close>

definition PROJECT_MAPPING :: "(string \<times> string) list" where
  "PROJECT_MAPPING =
    [(''topaz-stb-test-system'', ''topaz''),
     (''athena-runner-ott'', ''ott''),
     (''beyond_xray_services'', ''xray''),
     (''netMeterUplusHome'', ''netmeter''),
     (''NetAnalyzer'', ''netmeter''),
     (''NetAnalyzerLGHV'', ''netmeter''),
     (''web-speed-service-dione'', ''ott''),
     (''EvoService'', ''EvoRev2'')]"

definition PROJECT_COLORS :: "(string \<times> string) list" where
  "PROJECT_COLORS =
    [(''topaz'', ''#ef4444''),
     (''EvoRev2'', ''#3b82f6''),
     (''vos'', ''#22c55e''),
     (''ott'', ''#f59e0b''),
     (''netmeter'', ''#8b5cf6''),
     (''xray'', ''#06b6d4'')]"

definition DEFAULT_COLOR :: string where
  "DEFAULT_COLOR = ''#6b7280''"

text \<open>\<^verbatim>\<open>d.get(k, default)\<close> of a Python dictionary.\<close>

definition dict_get :: "('k \<times> 'v) list \<Rightarrow> 'k \<Rightarrow> 'v \<Rightarrow> 'v" where
  "dict_get d k dflt = (case map_of d k of None \<Rightarrow> dflt | Some v \<Rightarrow> v)"

section \<open>Heatmap transformation (github\_calendar.py)\<close>

definition normalize_project_name :: "string \<Rightarrow> string" where
  "normalize_project_name repo_name = dict_get PROJECT_MAPPING repo_name repo_name"

text \<open>
  Exceptions are values.  \<open>ValueError\<close> is raised by \<^verbatim>\<open>max\<close> on an empty iterable,
  \<open>ZeroDivisionError\<close> by \<^verbatim>\<open>/\<close> with a zero divisor, \<open>OverflowError\<close> by \<^verbatim>\<open>/\<close> on integers
  whose quotient is beyond the range of a float, \<open>TypeError\<close> by subscripting a string with
  a string, \<open>KeyError\<close> by subscripting a dictionary with a missing key; \<open>ExternalError\<close>
  stands for any exception that comes out of a GitHub or GitLab client call or of parsing a
  timestamp.
\<close>

datatype py_error =
  ValueError | ZeroDivisionError | OverflowError | TypeError | KeyError | ExternalError

subsection \<open>True division of integers\<close>

text \<open>
  \<^verbatim>\<open>count / max_count\<close> is Python's true division of two integers.  Its result is a float,
  an IEEE 754 binary64 number: the exact quotient rounded to the nearest representable
  number, a tie going to the neighbour with the even significand.  A float is modelled as the
  rational number it denotes.  For a quotient \<open>x\<close> with \<open>2^e \<le> x < 2^(e+1)\<close> the
  representable numbers around \<open>x\<close> are the multiples of \<open>2^q\<close> with \<open>q = e - 52\<close> (53
  significant bits), and never finer than \<open>2^(-1074)\<close>, the spacing of the subnormal numbers.
  A rounded result of \<open>2^1024\<close> or more is not a float; Python raises \<^verbatim>\<open>OverflowError\<close>.
\<close>

definition round_half_even :: "rat \<Rightarrow> int" where
  "round_half_even y =
     (let f = \<lfloor>y\<rfloor>; d = y - of_int f
      in if d < 1 / 2 then f else if 1 / 2 < d then f + 1 else if even f then f else f + 1)"

definition round_to :: "int \<Rightarrow> rat \<Rightarrow> rat" where
  "round_to q x = rat_of_int (round_half_even (x / 2 powi q)) * 2 powi q"

text \<open>The exponent \<open>e\<close> with \<open>2^e \<le> a / b < 2^(e+1)\<close>, for positive \<open>a\<close> and \<open>b\<close>;
  \<open>bitlen\<close> is the number of binary digits.\<close>

definition exponent2 :: "int \<Rightarrow> int \<Rightarrow> int" where
  "exponent2 a b =
     (let e0 = bitlen a - bitlen b
      in if 2 powi e0 \<le> rat_of_int a / rat_of_int b then e0 else e0 - 1)"

text \<open>The float quotient of two positive integers.\<close>

definition float_of_quotient :: "int \<Rightarrow> int \<Rightarrow> py_error + rat" where
  "float_of_quotient a b =
     (let v = round_to (max (exponent2 a b - 52) (- 1074)) (rat_of_int a / rat_of_int b)
      in if 2 ^ 1024 \<le> v then Inl OverflowError else Inr v)"

text \<open>\<^verbatim>\<open>a / b\<close> on integers of either sign: the quotient of the absolute values with the
  sign of the exact quotient.\<close>

definition py_truediv :: "int \<Rightarrow> int \<Rightarrow> py_error + rat" where
  "py_truediv a b =
     (if b = 0 then Inl ZeroDivisionError
      else if a = 0 then Inr 0
      else
        case float_of_quotient \<bar>a\<bar> \<bar>b\<bar> of
          Inl e \<Rightarrow> Inl e
        | Inr v \<Rightarrow> Inr (if (a < 0) = (b < 0) then v else - v))"

subsection \<open>Activity level\<close>

text \<open>
  The thresholds 0.25, 0.5 and 0.75 are floats; the comparison \<^verbatim>\<open>ratio <= 0.25\<close> is the
  comparison of the two numbers.
\<close>

definition calculate_level :: "int \<Rightarrow> int \<Rightarrow> py_error + nat" where
  "calculate_level count max_count =
    (if count = 0 then Inr 0
     else
       case py_truediv count max_count of
         Inl e \<Rightarrow> Inl e
       | Inr ratio \<Rightarrow>
           if ratio \<le> 1 / 4 then Inr 1
           else if ratio \<le> 1 / 2 then Inr 2
           else if ratio \<le> 3 / 4 then Inr 3
           else Inr 4)"

subsection \<open>Commit records and daily buckets\<close>

text \<open>
  A \<^verbatim>\<open>datetime.date\<close> is the triple (year, month, day); dates compare in that order, which
  is the lexicographic order of the triple.  A commit is the dictionary with the keys
  \<^verbatim>\<open>repo\<close>, \<^verbatim>\<open>date\<close> and \<^verbatim>\<open>source\<close> that the collectors build.  A daily bucket
  (\<^verbatim>\<open>daily_commits\<close>) is a dictionary from dates to lists of commits.
\<close>

type_synonym pydate = "nat \<times> nat \<times> nat"

datatype source = github | gitlab

record commit =
  c_repo :: string
  c_date :: pydate
  c_source :: source

type_synonym bucket = "(pydate \<times> commit list) list"

text \<open>\<^verbatim>\<open>date.strftime('%Y-%m-%d')\<close>: the year on four digits, month and day on two.\<close>

fun dec :: "nat \<Rightarrow> string" where
  "dec n = (if n < 10 then [''0123456789'' ! n] else dec (n div 10) @ [''0123456789'' ! (n mod 10)])"

definition zfill :: "nat \<Rightarrow> string \<Rightarrow> string" where
  "zfill width s = replicate (width - length s) CHR ''0'' @ s"

fun strftime_ymd :: "pydate \<Rightarrow> string" where
  "strftime_ymd (y, m, d) = zfill 4 (dec y) @ ''-'' @ zfill 2 (dec m) @ ''-'' @ zfill 2 (dec d)"

subsection \<open>Aggregation of one day\<close>

text \<open>
  \<^verbatim>\<open>project_counts[project] += 1\<close> on a \<^verbatim>\<open>defaultdict(int)\<close>: a missing key is
  read as 0 and enters the dictionary at the end.
\<close>

definition incr :: "'k \<Rightarrow> ('k \<times> int) list \<Rightarrow> ('k \<times> int) list" where
  "incr k d = AList.update k (dict_get d k 0 + 1) d"

definition count_projects :: "commit list \<Rightarrow> (string \<times> int) list" where
  "count_projects commits =
     foldl (\<lambda>project_counts c. incr (normalize_project_name (c_repo c)) project_counts) [] commits"

text \<open>
  \<^verbatim>\<open>max(d, key=d.get)\<close> walks the keys in insertion order, keeps the first one as the
  running maximum and replaces it only by a key whose value is strictly greater; on an empty
  dictionary it raises \<open>ValueError\<close>.  Every key that is looked up is a key of \<open>d\<close>, so
  the default of \<open>dict_get\<close> is never used.
\<close>

fun max_from :: "('k \<Rightarrow> int) \<Rightarrow> 'k \<Rightarrow> 'k list \<Rightarrow> 'k" where
  "max_from key maxitem [] = maxitem"
| "max_from key maxitem (item # items) =
     max_from key (if key item > key maxitem then item else maxitem) items"

definition py_max_key :: "('k \<times> int) list \<Rightarrow> py_error + 'k" where
  "py_max_key d =
     (case map fst d of
        [] \<Rightarrow> Inl ValueError
      | k # ks \<Rightarrow> Inr (max_from (\<lambda>k. dict_get d k 0) k ks))"

record day_info =
  di_project :: string
  di_count :: int

text \<open>The body of the loop over \<^verbatim>\<open>daily_commits.items()\<close>.\<close>

definition summarize_day :: "commit list \<Rightarrow> py_error + day_info" where
  "summarize_day commits =
     (let project_counts = count_projects commits in
      case py_max_key project_counts of
        Inl e \<Rightarrow> Inl e
      | Inr main_project \<Rightarrow>
          Inr \<lparr>di_project = main_project, di_count = sum_list (map snd project_counts)\<rparr>)"

fun summarize :: "bucket \<Rightarrow> (pydate \<times> day_info) list \<Rightarrow> py_error + (pydate \<times> day_info) list" where
  "summarize [] date_summary = Inr date_summary"
| "summarize ((date, commits) # rest) date_summary =
     (case summarize_day commits of
        Inl e \<Rightarrow> Inl e
      | Inr info \<Rightarrow> summarize rest (AList.update date info date_summary))"

subsection \<open>The heatmap entries\<close>

record heatmap_entry =
  he_date :: string
  he_count :: int
  he_project :: string
  he_level :: nat

fun build_heatmap :: "int \<Rightarrow> (pydate \<times> day_info) list \<Rightarrow> py_error + heatmap_entry list" where
  "build_heatmap max_count [] = Inr []"
| "build_heatmap max_count ((date, info) # rest) =
     (case calculate_level (di_count info) max_count of
        Inl e \<Rightarrow> Inl e
      | Inr lvl \<Rightarrow>
          (case build_heatmap max_count rest of
             Inl e \<Rightarrow> Inl e
           | Inr heatmap_data \<Rightarrow>
               Inr (\<lparr>he_date = strftime_ymd date, he_count = di_count info,
                     he_project = di_project info, he_level = lvl\<rparr> # heatmap_data)))"

text \<open>
  \<^verbatim>\<open>sorted(date_summary.items())\<close> compares the pairs by their date first; the dates are
  the keys of a dictionary, so no two are equal and the second components are never compared.
\<close>

definition convert_to_heatmap :: "bucket \<Rightarrow> py_error + heatmap_entry list" where
  "convert_to_heatmap daily_commits =
     (if daily_commits = [] then Inr []
      else
        case summarize daily_commits [] of
          Inl e \<Rightarrow> Inl e
        | Inr date_summary \<Rightarrow>
            let max_count =
              (if date_summary = [] then 1 else Max (set (map (\<lambda>d. di_count (snd d)) date_summary)))
            in build_heatmap max_count (sort_key fst date_summary))"

subsection \<open>NeatoCal data\<close>

text \<open>
  \<^verbatim>\<open>neatocal_data\<close> is a dictionary whose key \<^verbatim>\<open>param\<close> holds the parameter block and
  whose other keys are dates holding project labels.
\<close>

record color_cell_entry =
  cc_date :: string
  cc_color :: string

record param =
  p_year :: int
  p_layout :: string
  p_cell_height :: string
  p_start_day :: int
  p_highlight_color :: string
  p_color_cell :: "color_cell_entry list"

datatype neatocal_value = Param param | Label string

type_synonym neatocal_data = "(string \<times> neatocal_value) list"

text \<open>
  The loop of \<open>generate_neatocal_data\<close>.  \<^verbatim>\<open>neatocal_data["param"]["color_cell"].append(...)\<close>
  reads the key \<^verbatim>\<open>param\<close> again in every round: after an entry whose date is the string
  \<^verbatim>\<open>param\<close> it finds a label there, and subscripting a string with a string raises
  \<open>TypeError\<close>.
\<close>

fun add_entries :: "heatmap_entry list \<Rightarrow> neatocal_data \<Rightarrow> py_error + neatocal_data" where
  "add_entries [] neatocal_data = Inr neatocal_data"
| "add_entries (entry # rest) neatocal_data =
     (let date = he_date entry;
          project = he_project entry;
          neatocal_data = AList.update date (Label project) neatocal_data;
          color = dict_get PROJECT_COLORS project DEFAULT_COLOR
      in case map_of neatocal_data ''param'' of
           None \<Rightarrow> Inl KeyError
         | Some (Label s) \<Rightarrow> Inl TypeError
         | Some (Param p) \<Rightarrow>
             add_entries rest
               (AList.update ''param''
                  (Param (p\<lparr>p_color_cell := p_color_cell p @ [\<lparr>cc_date = date, cc_color = color\<rparr>]\<rparr>))
                  neatocal_data))"

definition generate_neatocal_data :: "heatmap_entry list \<Rightarrow> int \<Rightarrow> py_error + neatocal_data" where
  "generate_neatocal_data heatmap_data year =
     add_entries heatmap_data
       [(''param'', Param \<lparr>p_year = year, p_layout = ''aligned-weekdays'', p_cell_height = ''1.5em'',
                            p_start_day = 0, p_highlight_color = ''#fef9c3'', p_color_cell = []\<rparr>)]"

subsection \<open>GitLab collector\<close>

text \<open>
  The GitLab client is a parameter: a record of the answers to the calls the collector makes,
  each an exception or a value.  The time window of the queries is fixed for a run and is
  part of the answer; a timestamp comes with the result of parsing it
  (\<^verbatim>\<open>datetime.fromisoformat\<close>).  Only the warnings and errors printed to the console are
  kept, as a list of log events; progress lines are left out.
\<close>

record gl_project =
  gp_id :: int
  gp_name :: string

record gl_user =
  gu_id :: int
  gu_name :: string

record gl_event =
  ev_project_id :: int
  ev_created_at :: "py_error + pydate"
  ev_commit_count :: "int option"

record gl_commit =
  gc_author_name :: string
  gc_author_email :: string
  gc_created_at :: "py_error + pydate"

record gitlab_api =
  groups_get :: "string \<Rightarrow> py_error + string"
  group_projects :: "string \<Rightarrow> py_error + gl_project list"
  users_list_username :: "string \<Rightarrow> py_error + gl_user list"
  users_list_search :: "string \<Rightarrow> py_error + gl_user list"
  user_events :: "gl_user \<Rightarrow> py_error + gl_event list"
  project_commits :: "gl_project \<Rightarrow> py_error + gl_commit list"

datatype log =
    LogUserNotFound string
  | LogGitlabError py_error
  | LogFallback
  | LogProjectError string
  | LogConnectionError py_error
  | LogNoCommitData string
  | LogSaved string

text \<open>\<^verbatim>\<open>d[k].append(v)\<close> on a \<^verbatim>\<open>defaultdict(list)\<close>.\<close>

definition dict_append :: "'k \<Rightarrow> 'v \<Rightarrow> ('k \<times> 'v list) list \<Rightarrow> ('k \<times> 'v list) list" where
  "dict_append k v d = AList.update k (dict_get d k [] @ [v]) d"

text \<open>
  \<^verbatim>\<open>str.lower\<close> is the Unicode lower-casing of Python.  It is not spelled out: every
  function that calls it takes it as the argument \<open>lower_fn\<close>, and what is proved holds for
  every such function.

  The author test of the legacy scan.  \<^verbatim>\<open>a in b\<close> on strings is \<open>sublist a b\<close>.
\<close>

definition author_match :: "(string \<Rightarrow> string) \<Rightarrow> string \<Rightarrow> string \<Rightarrow> string \<Rightarrow> bool" where
  "author_match lower_fn username author_name author_email \<longleftrightarrow>
     author_name = username
     \<or> sublist (lower_fn username) (lower_fn author_name)
     \<or> sublist (lower_fn username) (lower_fn author_email)"

text \<open>The same test without its first disjunct.\<close>

definition author_match_contains :: "(string \<Rightarrow> string) \<Rightarrow> string \<Rightarrow> string \<Rightarrow> string \<Rightarrow> bool" where
  "author_match_contains lower_fn username author_name author_email \<longleftrightarrow>
     sublist (lower_fn username) (lower_fn author_name)
     \<or> sublist (lower_fn username) (lower_fn author_email)"

text \<open>
  The commits of one project in the legacy scan.  An exception (here: a timestamp that does
  not parse) leaves the loop; the records appended before it stay in the bucket.
\<close>

fun legacy_commits ::
    "(string \<Rightarrow> string) \<Rightarrow> string \<Rightarrow> string \<Rightarrow> gl_commit list \<Rightarrow> bucket
      \<Rightarrow> bucket \<times> py_error option" where
  "legacy_commits lower_fn username project_name [] daily_commits = (daily_commits, None)"
| "legacy_commits lower_fn username project_name (commit # commits) daily_commits =
     (if author_match lower_fn username (gc_author_name commit) (gc_author_email commit) then
        (case gc_created_at commit of
           Inl e \<Rightarrow> (daily_commits, Some e)
         | Inr commit_date \<Rightarrow>
             legacy_commits lower_fn username project_name commits
               (dict_append commit_date
                  \<lparr>c_repo = project_name, c_date = commit_date, c_source = gitlab\<rparr> daily_commits))
      else legacy_commits lower_fn username project_name commits daily_commits)"

fun legacy_projects ::
    "(string \<Rightarrow> string) \<Rightarrow> gitlab_api \<Rightarrow> string \<Rightarrow> gl_project list \<Rightarrow> bucket \<times> log list
      \<Rightarrow> bucket \<times> log list" where
  "legacy_projects lower_fn api username [] acc = acc"
| "legacy_projects lower_fn api username (project_info # projects) (daily_commits, console) =
     (case project_commits api project_info of
        Inl e \<Rightarrow>
          legacy_projects lower_fn api username projects
            (daily_commits, console @ [LogProjectError (gp_name project_info)])
      | Inr commits \<Rightarrow>
          (case legacy_commits lower_fn username (gp_name project_info) commits daily_commits of
             (daily_commits', Some e) \<Rightarrow>
               legacy_projects lower_fn api username projects
                 (daily_commits', console @ [LogProjectError (gp_name project_info)])
           | (daily_commits', None) \<Rightarrow>
               legacy_projects lower_fn api username projects (daily_commits', console)))"

definition collect_gitlab_commits_legacy ::
    "(string \<Rightarrow> string) \<Rightarrow> gitlab_api \<Rightarrow> string \<Rightarrow> string \<Rightarrow> bucket \<times> log list" where
  "collect_gitlab_commits_legacy lower_fn api group_name username =
     (case groups_get api group_name of
        Inl e \<Rightarrow> ([], [LogConnectionError e])
      | Inr gitlab_group \<Rightarrow>
          (case group_projects api group_name of
             Inl e \<Rightarrow> ([], [LogConnectionError e])
           | Inr projects \<Rightarrow> legacy_projects lower_fn api username projects ([], [])))"

text \<open>
  The loop over the push events of the primary path, its body first.
  \<^verbatim>\<open>range(num_commits)\<close> is empty for a count that is not positive.
\<close>

fun str_int :: "int \<Rightarrow> string" where
  "str_int i = (if i < 0 then ''-'' @ dec (nat (- i)) else dec (nat i))"

definition add_event :: "gl_project list \<Rightarrow> pydate \<Rightarrow> pydate \<Rightarrow> gl_event \<Rightarrow> bucket \<Rightarrow> py_error + bucket" where
  "add_event projects start_date end_date event daily_commits =
     (if ev_project_id event \<notin> set (map gp_id projects) then Inr daily_commits
      else
        case ev_created_at event of
          Inl e \<Rightarrow> Inl e
        | Inr event_date \<Rightarrow>
            if \<not> (start_date \<le> event_date \<and> event_date \<le> end_date) then Inr daily_commits
            else
              let num_commits = (case ev_commit_count event of None \<Rightarrow> 1 | Some n \<Rightarrow> n);
                  project_names = foldl (\<lambda>d p. AList.update (gp_id p) (gp_name p) d) [] projects;
                  project_name =
                    dict_get project_names (ev_project_id event)
                      (''project_'' @ str_int (ev_project_id event))
              in Inr ((dict_append event_date
                         \<lparr>c_repo = project_name, c_date = event_date, c_source = gitlab\<rparr>
                       ^^ nat num_commits) daily_commits))"

fun add_events :: "gl_project list \<Rightarrow> pydate \<Rightarrow> pydate \<Rightarrow> gl_event list \<Rightarrow> bucket \<Rightarrow> py_error + bucket" where
  "add_events projects start_date end_date [] daily_commits = Inr daily_commits"
| "add_events projects start_date end_date (event # events) daily_commits =
     (case add_event projects start_date end_date event daily_commits of
        Inl e \<Rightarrow> Inl e
      | Inr daily_commits' \<Rightarrow> add_events projects start_date end_date events daily_commits')"

text \<open>
  The body of the \<^verbatim>\<open>try\<close> block of \<open>collect_gitlab_commits\<close>: an exception anywhere
  in it is the left value, which the handler turns into the legacy scan.
\<close>

definition gitlab_primary ::
    "gitlab_api \<Rightarrow> string \<Rightarrow> string \<Rightarrow> pydate \<Rightarrow> pydate \<Rightarrow> py_error + bucket \<times> log list" where
  "gitlab_primary api group_name username start_date end_date =
     (case groups_get api group_name of
        Inl e \<Rightarrow> Inl e
      | Inr gitlab_group \<Rightarrow>
          (case group_projects api group_name of
             Inl e \<Rightarrow> Inl e
           | Inr projects \<Rightarrow>
               (case users_list_username api username of
                  Inl e \<Rightarrow> Inl e
                | Inr users0 \<Rightarrow>
                    (case (if users0 = [] then users_list_search api username else Inr users0) of
                       Inl e \<Rightarrow> Inl e
                     | Inr [] \<Rightarrow> Inr ([], [LogUserNotFound username])
                     | Inr (user # others) \<Rightarrow>
                         (case user_events api user of
                            Inl e \<Rightarrow> Inl e
                          | Inr events \<Rightarrow>
                              (case add_events projects start_date end_date events [] of
                                 Inl e \<Rightarrow> Inl e
                               | Inr daily_commits \<Rightarrow> Inr (daily_commits, [])))))))"

definition collect_gitlab_commits ::
    "(string \<Rightarrow> string) \<Rightarrow> bool \<Rightarrow> gitlab_api \<Rightarrow> string \<Rightarrow> string \<Rightarrow> pydate \<Rightarrow> pydate
      \<Rightarrow> bucket \<times> log list" where
  "collect_gitlab_commits lower_fn GITLAB_AVAILABLE api group_name username start_date end_date =
     (if \<not> GITLAB_AVAILABLE then ([], [])
      else
        case gitlab_primary api group_name username start_date end_date of
          Inr result \<Rightarrow> result
        | Inl e \<Rightarrow>
            (let (daily_commits, console) =
                   collect_gitlab_commits_legacy lower_fn api group_name username
             in (daily_commits, [LogGitlabError e, LogFallback] @ console)))"

subsection \<open>Orchestration\<close>

text \<open>
  The roster entry of a person, the world the run talks to (with it the lower-casing of the
  Python library, \<open>world_lower\<close>), and what the run leaves behind:
  the calendars kept in memory, the files written (a dictionary from file name to content,
  a rewrite replacing the content) and the console.  The HTML and JSON texts are not spelled
  out: a file content records which generator produced it and from what data.
\<close>

record user =
  u_name :: string
  u_github :: "string option"
  u_gitlab :: "string option"

record world =
  world_lower :: "string \<Rightarrow> string"
  gitlab_available :: bool
  github_collect :: "string \<Rightarrow> py_error + bucket"
  gitlab_client :: gitlab_api
  GITLAB_GROUP_NAME :: string
  START_DATE :: pydate
  END_DATE :: pydate

datatype file_content =
    SingleHtml neatocal_data int
  | JsonDump neatocal_data
  | TabbedHtml "(string \<times> neatocal_data) list" int

record main_state =
  user_calendars :: "(string \<times> neatocal_data) list"
  files :: "(string \<times> file_content) list"
  console :: "log list"

text \<open>\<^verbatim>\<open>if github_username:\<close> holds for a string that is neither \<^verbatim>\<open>None\<close> nor empty.\<close>

fun truthy :: "string option \<Rightarrow> bool" where
  "truthy None = False"
| "truthy (Some s) = (s \<noteq> [])"

text \<open>\<^verbatim>\<open>for date, commits in src.items(): all_commits[date].extend(commits)\<close>\<close>

definition extend_all :: "bucket \<Rightarrow> bucket \<Rightarrow> bucket" where
  "extend_all src all_commits =
     foldl (\<lambda>acc (date, commits). AList.update date (dict_get acc date [] @ commits) acc)
       all_commits src"

text \<open>
  What the two collectors return for a person, merged.  The GitHub collector has no handler
  of its own around the organisation lookup, so it can raise; the GitLab collector cannot.
\<close>

definition collect_all :: "world \<Rightarrow> user \<Rightarrow> py_error + bucket \<times> log list" where
  "collect_all w user =
     (case (case u_github user of
              None \<Rightarrow> Inr []
            | Some github_username \<Rightarrow>
                if github_username \<noteq> [] then github_collect w github_username else Inr []) of
        Inl e \<Rightarrow> Inl e
      | Inr github_commits \<Rightarrow>
          (let all_commits = extend_all github_commits [];
               (gitlab_commits, gitlab_console) =
                 (case u_gitlab user of
                    None \<Rightarrow> ([], [])
                  | Some gitlab_username \<Rightarrow>
                      if gitlab_username \<noteq> [] \<and> gitlab_available w then
                        collect_gitlab_commits (world_lower w) (gitlab_available w)
                          (gitlab_client w) (GITLAB_GROUP_NAME w) gitlab_username
                          (START_DATE w) (END_DATE w)
                      else ([], []))
           in Inr (extend_all gitlab_commits all_commits, gitlab_console)))"

definition html_file_name :: "string \<Rightarrow> string" where
  "html_file_name display_name = ''commit_calendar - '' @ display_name @ ''.html''"

definition json_file_name :: "string \<Rightarrow> string" where
  "json_file_name display_name = ''commit_calendar_data - '' @ display_name @ ''.json''"

text \<open>One round of the loop over \<^verbatim>\<open>USERS\<close>; an exception ends the run.\<close>

definition process_user :: "world \<Rightarrow> user \<Rightarrow> main_state \<Rightarrow> main_state \<times> py_error option" where
  "process_user w user st =
     (let display_name = u_name user; year = int (fst (START_DATE w)) in
      case collect_all w user of
        Inl e \<Rightarrow> (st, Some e)
      | Inr (all_commits, gitlab_console) \<Rightarrow>
          (let st = st\<lparr>console := console st @ gitlab_console\<rparr> in
           if all_commits = [] then
             (st\<lparr>console := console st @ [LogNoCommitData display_name]\<rparr>, None)
           else
             case convert_to_heatmap all_commits of
               Inl e \<Rightarrow> (st, Some e)
             | Inr heatmap_data \<Rightarrow>
                 (case generate_neatocal_data heatmap_data year of
                    Inl e \<Rightarrow> (st, Some e)
                  | Inr neatocal_data \<Rightarrow>
                      (st\<lparr>user_calendars :=
                            AList.update display_name neatocal_data (user_calendars st),
                          files :=
                            AList.update (json_file_name display_name) (JsonDump neatocal_data)
                              (AList.update (html_file_name display_name)
                                 (SingleHtml neatocal_data year) (files st)),
                          console :=
                            console st @ [LogSaved (html_file_name display_name),
                                          LogSaved (json_file_name display_name)]\<rparr>,
                       None))))"

fun main_users :: "world \<Rightarrow> user list \<Rightarrow> main_state \<Rightarrow> main_state \<times> py_error option" where
  "main_users w [] st = (st, None)"
| "main_users w (user # users) st =
     (case process_user w user st of
        (st', Some e) \<Rightarrow> (st', Some e)
      | (st', None) \<Rightarrow> main_users w users st')"

definition main :: "world \<Rightarrow> user list \<Rightarrow> main_state \<times> py_error option" where
  "main w USERS =
     (case main_users w USERS \<lparr>user_calendars = [], files = [], console = []\<rparr> of
        (st, Some e) \<Rightarrow> (st, Some e)
      | (st, None) \<Rightarrow>
          if length (user_calendars st) \<ge> 1 then
            (st\<lparr>files :=
                  AList.update ''commit_calendar_all.html''
                    (TabbedHtml (user_calendars st) (int (fst (START_DATE w)))) (files st),
                console := console st @ [LogSaved ''commit_calendar_all.html'']\<rparr>, None)
          else (st, None))"

subsection \<open>Auxiliary notions for the statements about the conversion\<close>

text \<open>The elements of a list in the order of their first occurrence: the key order of a
  dictionary filled by walking the list.\<close>

fun first_seen :: "'a list \<Rightarrow> 'a list" where
  "first_seen [] = []"
| "first_seen (x # xs) = x # first_seen (filter (\<lambda>y. y \<noteq> x) xs)"

text \<open>The normalized project labels of a day's records, in encounter order.\<close>

definition labels_of :: "commit list \<Rightarrow> string list" where
  "labels_of commits = map (\<lambda>c. normalize_project_name (c_repo c)) commits"

text \<open>Relations between the stages of the conversion, used to state what each stage keeps.\<close>

definition day_rel :: "pydate \<times> commit list \<Rightarrow> pydate \<times> day_info \<Rightarrow> bool" where
  "day_rel x y \<longleftrightarrow> fst y = fst x \<and> summarize_day (snd x) = Inr (snd y)"

definition entry_rel :: "int \<Rightarrow> pydate \<times> day_info \<Rightarrow> heatmap_entry \<Rightarrow> bool" where
  "entry_rel max_count x e \<longleftrightarrow>
     he_date e = strftime_ymd (fst x) \<and> he_count e = di_count (snd x)
     \<and> he_project e = di_project (snd x)
     \<and> calculate_level (di_count (snd x)) max_count = Inr (he_level e)"

definition core_rel :: "pydate \<times> commit list \<Rightarrow> heatmap_entry \<Rightarrow> bool" where
  "core_rel x e \<longleftrightarrow>
     he_date e = strftime_ymd (fst x)
     \<and> summarize_day (snd x) = Inr \<lparr>di_project = he_project e, di_count = he_count e\<rparr>"

text \<open>The day of the example: three records of A, five of B, one more of A.\<close>

definition day_A3_B5_A1 :: "commit list" where
  "day_A3_B5_A1 =
     map (\<lambda>r. \<lparr>c_repo = r, c_date = (2025, 3, 14), c_source = github\<rparr>)
       [''A'', ''A'', ''A'', ''B'', ''B'', ''B'', ''B'', ''B'', ''A'']"

text \<open>
  The specification's choice of a day's representative project: the first label, in
  encounter order, whose count is not exceeded by any other label's count.
\<close>

definition spec_representative :: "string list \<Rightarrow> string option" where
  "spec_representative labels =
     find (\<lambda>l. \<forall>l'\<in>set labels. count_list labels l' \<le> count_list labels l) labels"

text \<open>A bucket of two days, the later one inserted first.\<close>

definition two_day_bucket :: bucket where
  "two_day_bucket =
     [((2025, 3, 14), day_A3_B5_A1),
      ((2025, 1, 2),
       map (\<lambda>r. \<lparr>c_repo = r, c_date = (2025, 1, 2), c_source = gitlab\<rparr>)
         [''topaz-stb-test-system'', ''vos'', ''vos'', ''topaz''])]"

subsection \<open>Auxiliary notions for the statements about the calendar data\<close>

text \<open>Two heatmap entries, one with a project of the colour table and one without.\<close>

definition two_entries :: "heatmap_entry list" where
  "two_entries = [\<lparr>he_date = ''2025-01-02'', he_count = 4, he_project = ''topaz'', he_level = 2\<rparr>,
          \<lparr>he_date = ''2025-03-14'', he_count = 9, he_project = ''B'', he_level = 4\<rparr>]"

text \<open>The \<^verbatim>\<open>{date, color}\<close> pair that the generator appends for an entry.\<close>

definition cell_of :: "heatmap_entry \<Rightarrow> color_cell_entry" where
  "cell_of entry = \<lparr>cc_date = he_date entry,
                    cc_color = dict_get PROJECT_COLORS (he_project entry) DEFAULT_COLOR\<rparr>"

subsection \<open>Auxiliary notions for the statements about the GitLab collector\<close>

text \<open>
  On a string of ASCII characters \<^verbatim>\<open>str.lower\<close> replaces the letters A to Z by a to z and
  keeps every other character.  \<open>ascii_lower\<close> does that; it stands for \<^verbatim>\<open>str.lower\<close> in
  the examples, whose strings are ASCII.
\<close>

definition ascii_lower :: "string \<Rightarrow> string" where
  "ascii_lower s =
     map (\<lambda>c. if CHR ''A'' \<le> c \<and> c \<le> CHR ''Z'' then char_of (of_char c + (32::nat)) else c) s"

text \<open>
  A GitLab server that knows the group and one project but no user at all; every other call
  fails.
\<close>

definition api_no_user :: gitlab_api where
  "api_no_user =
     \<lparr>groups_get = (\<lambda>g. Inr g),
      group_projects = (\<lambda>g. Inr [\<lparr>gp_id = 7, gp_name = ''vos''\<rparr>]),
      users_list_username = (\<lambda>u. Inr []),
      users_list_search = (\<lambda>u. Inr []),
      user_events = (\<lambda>u. Inl ExternalError),
      project_commits = (\<lambda>p. Inl ExternalError)\<rparr>"

subsection \<open>Auxiliary notions for the statements about the orchestration\<close>

text \<open>A world in which one GitHub account has the commits of the two-day bucket.\<close>

definition one_active_world :: world where
  "one_active_world =
     \<lparr>world_lower = ascii_lower,
      gitlab_available = False,
      github_collect = (\<lambda>u. if u = ''Nieaunder7'' then Inr two_day_bucket else Inr []),
      gitlab_client = api_no_user,
      GITLAB_GROUP_NAME = ''nextlab-cowork'',
      START_DATE = (2025, 1, 1),
      END_DATE = (2025, 12, 31)\<rparr>"

definition active_user :: user where
  "active_user = \<lparr>u_name = ''seyong'', u_github = Some ''Nieaunder7'', u_gitlab = Some ''sieging''\<rparr>"

text \<open>A person without commits in that world.\<close>

definition some_user :: user where
  "some_user = \<lparr>u_name = ''bomi'', u_github = Some ''bomi94437'', u_gitlab = None\<rparr>"

section \<open>Calendar merger (merge\_calendars.py)\<close>

text \<open>\<^verbatim>\<open>s.replace(old, new)\<close>: the occurrences of \<open>old\<close> are found from left to right and do
  not overlap; an empty \<open>old\<close> matches before every character and at the end.\<close>

function str_replace :: "string \<Rightarrow> string \<Rightarrow> string \<Rightarrow> string" where
  "str_replace old new [] = (if old = [] then new else [])"
| "str_replace old new (c # cs) =
     (if old = [] then new @ c # str_replace old new cs
      else if prefix old (c # cs) then new @ str_replace old new (drop (length old) (c # cs))
      else c # str_replace old new cs)"
  by pat_completeness auto

termination
  by (relation "measure (\<lambda>(old, new, s). length s)") auto

text \<open>\<^verbatim>\<open>name.rfind('.')\<close> and \<^verbatim>\<open>PurePath.stem\<close>: the name without its last suffix.\<close>

definition rfind_dot :: "string \<Rightarrow> nat option" where
  "rfind_dot name =
     (if CHR ''.'' \<in> set name
      then Some (length name - 1 - length (takeWhile (\<lambda>c. c \<noteq> CHR ''.'') (rev name)))
      else None)"

definition stem :: "string \<Rightarrow> string" where
  "stem name =
     (case rfind_dot name of
        None \<Rightarrow> name
      | Some i \<Rightarrow> if 0 < i \<and> i < length name - 1 then take i name else name)"

text \<open>\<^verbatim>\<open>directory.glob("commit_calendar - *.html")\<close> keeps the children of the directory
  whose names begin with the text before the star and end with the text after it, the two
  parts not overlapping.\<close>

definition glob_calendar :: "string \<Rightarrow> bool" where
  "glob_calendar name \<longleftrightarrow>
     prefix ''commit_calendar - '' name \<and> suffix ''.html'' name
     \<and> length ''commit_calendar - '' + length ''.html'' \<le> length name"

record calendar_file =
  cf_path :: string
  cf_name :: string

text \<open>A directory is the list of the names of its children, in the order of the listing.
  \<^verbatim>\<open>list.sort\<close> is stable, as \<open>sort_key\<close> is.\<close>

definition find_calendar_files :: "(string \<Rightarrow> string) \<Rightarrow> string list \<Rightarrow> calendar_file list" where
  "find_calendar_files lower_fn directory =
     sort_key (\<lambda>x. lower_fn (cf_name x))
       (map (\<lambda>f. \<lparr>cf_path = f, cf_name = str_replace ''commit_calendar - '' '''' (stem f)\<rparr>)
          (filter glob_calendar directory))"

text \<open>
  \<^verbatim>\<open>re.search(r'var\s+CALENDAR_DATA\s*=\s*(\{.*?\});', html_content, re.DOTALL)\<close>.
  The white space runs are followed by a character that is no white space, so the greedy run
  is the only one that can match; the lazy \<^verbatim>\<open>.*?\<close> ends at the first \<^verbatim>\<open>};\<close> behind the
  opening brace.  The search takes the leftmost position at which the pattern matches and
  returns group 1.

  \<^verbatim>\<open>\s\<close> in a pattern on strings matches the white space of Unicode: the code points
  U+0009 to U+000D, U+001C to U+0020, U+0085, U+00A0, U+1680, U+2000 to U+200A, U+2028,
  U+2029, U+202F, U+205F and U+3000.  \<open>unicode_spaces\<close> lists their UTF-8 encodings,
  \<open>space_len\<close> is the length of the white space character at the head of a text (0 if
  there is none), and \<open>skip_space\<close> removes the run of white space at the head.
\<close>

definition unicode_spaces :: "string list" where
  "unicode_spaces =
     map (\<lambda>c. [c])
       [CHR 0x09, CHR 0x0A, CHR 0x0B, CHR 0x0C, CHR 0x0D,
        CHR 0x1C, CHR 0x1D, CHR 0x1E, CHR 0x1F, CHR 0x20]
     @ map (\<lambda>c. [CHR 0xC2, c]) [CHR 0x85, CHR 0xA0]
     @ map (\<lambda>c. [CHR 0xE1, CHR 0x9A, c]) [CHR 0x80]
     @ map (\<lambda>c. [CHR 0xE2, CHR 0x80, c])
         [CHR 0x80, CHR 0x81, CHR 0x82, CHR 0x83, CHR 0x84, CHR 0x85, CHR 0x86, CHR 0x87,
          CHR 0x88, CHR 0x89, CHR 0x8A, CHR 0xA8, CHR 0xA9, CHR 0xAF]
     @ map (\<lambda>c. [CHR 0xE2, CHR 0x81, c]) [CHR 0x9F]
     @ map (\<lambda>c. [CHR 0xE3, CHR 0x80, c]) [CHR 0x80]"

definition space_len :: "string \<Rightarrow> nat" where
  "space_len s = (case find (\<lambda>w. prefix w s) unicode_spaces of None \<Rightarrow> 0 | Some w \<Rightarrow> length w)"

function skip_space :: "string \<Rightarrow> string" where
  "skip_space [] = []"
| "skip_space (c # cs) =
     (if space_len (c # cs) = 0 then c # cs else skip_space (drop (space_len (c # cs) - 1) cs))"
  by pat_completeness auto

termination
  by (relation "measure length") auto

definition strip_prefix :: "string \<Rightarrow> string \<Rightarrow> string option" where
  "strip_prefix p s = (if prefix p s then Some (drop (length p) s) else None)"

fun split_at_first :: "string \<Rightarrow> string \<Rightarrow> (string \<times> string) option" where
  "split_at_first needle [] = (if needle = [] then Some ([], []) else None)"
| "split_at_first needle (c # cs) =
     (if prefix needle (c # cs) then Some ([], drop (length needle) (c # cs))
      else case split_at_first needle cs of
             None \<Rightarrow> None
           | Some (before, after) \<Rightarrow> Some (c # before, after))"

definition match_calendar_data :: "string \<Rightarrow> string option" where
  "match_calendar_data s =
     (case strip_prefix ''var'' s of
        None \<Rightarrow> None
      | Some s1 \<Rightarrow>
          if space_len s1 = 0 then None
          else
            case strip_prefix ''CALENDAR_DATA'' (skip_space s1) of
              None \<Rightarrow> None
            | Some s2 \<Rightarrow>
                (case strip_prefix ''='' (skip_space s2) of
                   None \<Rightarrow> None
                 | Some s3 \<Rightarrow>
                     (case strip_prefix ''{'' (skip_space s3) of
                        None \<Rightarrow> None
                      | Some s4 \<Rightarrow>
                          (case split_at_first ''};'' s4 of
                             None \<Rightarrow> None
                           | Some (body, rest) \<Rightarrow> Some (''{'' @ body @ ''}'')))))"

fun search_calendar_data :: "string \<Rightarrow> string option" where
  "search_calendar_data [] = None"
| "search_calendar_data (c # cs) =
     (case match_calendar_data (c # cs) of
        Some json_str \<Rightarrow> Some json_str
      | None \<Rightarrow> search_calendar_data cs)"

text \<open>
  The console of the merger.  \<^verbatim>\<open>json.loads\<close> is a parameter: it returns the dictionary
  for a text that is a JSON object and nothing for a text that does not parse.
\<close>

datatype merge_log =
    MergeNoFiles
  | MergeJsonError
  | MergeOk string
  | MergeNoData string
  | MergeReadError string
  | MergeNoCalendars
  | MergeSaved

definition extract_calendar_data ::
    "(string \<Rightarrow> (string \<times> 'v) list option) \<Rightarrow> string \<Rightarrow> (string \<times> 'v) list option \<times> merge_log list" where
  "extract_calendar_data json_loads html_content =
     (case search_calendar_data html_content of
        Some json_str \<Rightarrow>
          (case json_loads json_str of
             Some data \<Rightarrow> (Some data, [])
           | None \<Rightarrow> (None, [MergeJsonError]))
      | None \<Rightarrow> (None, []))"

text \<open>The combined document: its tab buttons (name and whether active), the embedded
  object \<^verbatim>\<open>ALL_CALENDAR_DATA\<close>, the name shown first and the year.\<close>

record 'v calendar =
  cal_name :: string
  cal_data :: "(string \<times> 'v) list"

record 'v tabbed_html =
  tab_buttons :: "(string \<times> bool) list"
  all_calendar_data :: "(string \<times> (string \<times> 'v) list) list"
  current_name :: string
  title_year :: int

text \<open>\<open>generate_tabbed_html\<close> of merge\_calendars.py.\<close>

definition merge_generate_tabbed_html :: "'v calendar list \<Rightarrow> int \<Rightarrow> 'v tabbed_html" where
  "merge_generate_tabbed_html calendars year =
     \<lparr>tab_buttons = map (\<lambda>(i, cal). (cal_name cal, i = 0)) (enumerate 0 calendars),
      all_calendar_data =
        foldl (\<lambda>calendar_data_js cal. AList.update (cal_name cal) (cal_data cal) calendar_data_js)
          [] calendars,
      current_name = (case calendars of [] \<Rightarrow> [] | cal # rest \<Rightarrow> cal_name cal),
      title_year = year\<rparr>"

text \<open>
  The extraction loop of the merger's \<open>main\<close>.  A directory gives for each child its name
  and what reading it returns.  A file that cannot be read, whose data cannot be found or
  parsed, or whose data is an empty object, is reported and left out.
\<close>

type_synonym directory = "(string \<times> (py_error + string)) list"

fun extract_files ::
    "(string \<Rightarrow> (string \<times> 'v) list option) \<Rightarrow> directory \<Rightarrow> calendar_file list
      \<Rightarrow> 'v calendar list \<times> merge_log list" where
  "extract_files json_loads dir [] = ([], [])"
| "extract_files json_loads dir (f # fs) =
     (let (calendars, console) = extract_files json_loads dir fs in
      case dict_get dir (cf_path f) (Inl ExternalError) of
        Inl e \<Rightarrow> (calendars, MergeReadError (cf_name f) # console)
      | Inr html_content \<Rightarrow>
          (case extract_calendar_data json_loads html_content of
             (Some data, msgs) \<Rightarrow>
               if data \<noteq> [] then
                 (\<lparr>cal_name = cf_name f, cal_data = data\<rparr> # calendars,
                  msgs @ MergeOk (cf_name f) # console)
               else (calendars, msgs @ MergeNoData (cf_name f) # console)
           | (None, msgs) \<Rightarrow> (calendars, msgs @ MergeNoData (cf_name f) # console)))"

record 'v merge_result =
  output_file :: "'v tabbed_html option"
  merge_console :: "merge_log list"

text \<open>\<open>main\<close> of merge\_calendars.py.\<close>

definition merge_main ::
    "(string \<Rightarrow> string) \<Rightarrow> (string \<Rightarrow> (string \<times> 'v) list option) \<Rightarrow> directory
      \<Rightarrow> 'v merge_result" where
  "merge_main lower_fn json_loads dir =
     (let files = find_calendar_files lower_fn (map fst dir) in
      if files = [] then \<lparr>output_file = None, merge_console = [MergeNoFiles]\<rparr>
      else
        let (calendars, console) = extract_files json_loads dir files in
        if calendars = [] then
          \<lparr>output_file = None, merge_console = console @ [MergeNoCalendars]\<rparr>
        else
          \<lparr>output_file = Some (merge_generate_tabbed_html calendars 2025),
           merge_console = console @ [MergeSaved]\<rparr>)"

text \<open>
  A file written to \<^verbatim>\<open>OUTPUT_DIR / rel\<close> is a child of the output directory, under the
  name \<open>rel\<close>, only if \<open>rel\<close> has no path separator.
\<close>

definition child_name :: "string \<Rightarrow> string option" where
  "child_name rel = (if CHR ''/'' \<in> set rel then None else Some rel)"

subsection \<open>Auxiliary notions for the statements about the merger\<close>

text \<open>
  The JSON texts of the examples, and \<^verbatim>\<open>json.loads\<close> on them: the objects
  \<^verbatim>\<open>{"param": 1}\<close>, \<^verbatim>\<open>{"param": 2}\<close> and \<^verbatim>\<open>{}\<close> parse to the dictionaries they denote.  No
  other text reaches \<^verbatim>\<open>json.loads\<close> in the examples.
\<close>

definition json_param_1 :: string where
  \<open>json_param_1 = ''{"param": 1}''\<close>

definition json_param_2 :: string where
  \<open>json_param_2 = ''{"param": 2}''\<close>

definition json_loads_examples :: "string \<Rightarrow> (string \<times> nat) list option" where
  "json_loads_examples s =
     (if s = ''{}'' then Some []
      else if s = json_param_1 then Some [(''param'', 1)]
      else if s = json_param_2 then Some [(''param'', 2)]
      else None)"

text \<open>A directory with three candidate files, one of them without the data variable, and the
  combined file.\<close>

definition dir_three :: directory where
  "dir_three =
     [(''commit_calendar - bo.html'',
         Inr (''<script> var CALENDAR_DATA = '' @ json_param_2 @ ''; </script>'')),
      (''commit_calendar_all.html'',
         Inr (''var ALL_CALENDAR_DATA = '' @ json_param_1 @ '';'')),
      (''commit_calendar - Cy.html'', Inr ''<html>no data here</html>''),
      (''commit_calendar - Al.html'',
         Inr (''<script>var  CALENDAR_DATA='' @ json_param_1 @ '';</script>''))]"

text \<open>Two candidate files whose names the merger reduces to the same person name.  The
  second is the file that the generator writes for the display name
  \<^verbatim>\<open>commit_calendar - a\<close>.\<close>

definition dir_same_name :: directory where
  "dir_same_name =
     [(''commit_calendar - a.html'', Inr (''var CALENDAR_DATA = '' @ json_param_1 @ '';'')),
      (''commit_calendar - commit_calendar - a.html'',
         Inr (''var CALENDAR_DATA = '' @ json_param_2 @ '';''))]"

text \<open>A candidate file whose data is the empty object.\<close>

definition dir_empty_object :: directory where
  "dir_empty_object = [(''commit_calendar - a.html'', Inr ''var CALENDAR_DATA = {};'')]"

text \<open>
  The files of a directory that the merger recovers: the candidate files, in the order of
  the merger, that can be read and whose data is found, parses and is not the empty object.
\<close>

definition recovers :: "(string \<Rightarrow> (string \<times> 'v) list option) \<Rightarrow> directory \<Rightarrow> calendar_file \<Rightarrow> bool" where
  "recovers json_loads dir f \<longleftrightarrow>
     (case dict_get dir (cf_path f) (Inl ExternalError) of
        Inl e \<Rightarrow> False
      | Inr html_content \<Rightarrow>
          (case fst (extract_calendar_data json_loads html_content) of
             None \<Rightarrow> False
           | Some data \<Rightarrow> data \<noteq> []))"

definition recovered ::
    "(string \<Rightarrow> string) \<Rightarrow> (string \<Rightarrow> (string \<times> 'v) list option) \<Rightarrow> directory
      \<Rightarrow> calendar_file list" where
  "recovered lower_fn json_loads dir =
     filter (recovers json_loads dir) (find_calendar_files lower_fn (map fst dir))"

text \<open>The numbers of tab buttons and of keys of the embedded object of a run's output.\<close>

definition tab_count :: "'v merge_result \<Rightarrow> nat" where
  "tab_count r = (case output_file r of None \<Rightarrow> 0 | Some doc \<Rightarrow> length (tab_buttons doc))"

definition key_count :: "'v merge_result \<Rightarrow> nat" where
  "key_count r = (case output_file r of None \<Rightarrow> 0 | Some doc \<Rightarrow> length (all_calendar_data doc))"

section \<open>Standalone converter (convert\_to\_standalone.py)\<close>

text \<open>
  The three patterns of the converter have the same shape: an opening text, a run of
  characters other than \<^verbatim>\<open>>\<close> that contains a reference to a file of the bundle, the
  closing \<^verbatim>\<open>>\<close>, and for the script tag the text \<^verbatim>\<open></script>\<close> behind it.  A
  reference is an attribute name with \<^verbatim>\<open>=\<close>, a quote of either kind, an optional
  \<^verbatim>\<open>.\<close>, an optional \<^verbatim>\<open>/\<close>, the path, and a quote of either kind.  No character of a
  reference is \<^verbatim>\<open>>\<close>, so a match at a position always runs to the first \<^verbatim>\<open>>\<close> behind
  the opening text.  A matcher returns the length of the match at the start of its argument.
\<close>

definition ref_variants :: "string \<Rightarrow> string \<Rightarrow> string list" where
  \<open>ref_variants attr path =
     [attr @ q1 @ dot @ slash @ path @ q2.
        q1 \<leftarrow> [[CHR 0x27], [CHR 0x22]], dot \<leftarrow> ['''', ''.''], slash \<leftarrow> ['''', ''/''],
        q2 \<leftarrow> [[CHR 0x27], [CHR 0x22]]]\<close>

definition match_tag :: "string \<Rightarrow> string list \<Rightarrow> string \<Rightarrow> string \<Rightarrow> nat option" where
  "match_tag opening refs closing s =
     (case strip_prefix opening s of
        None \<Rightarrow> None
      | Some rest \<Rightarrow>
          let body = takeWhile (\<lambda>c. c \<noteq> CHR ''>'') rest;
              after = dropWhile (\<lambda>c. c \<noteq> CHR ''>'') rest
          in if prefix closing after \<and> (\<exists>r\<in>set refs. sublist r body)
             then Some (length opening + length body + length closing)
             else None)"

definition match_oswald_link :: "string \<Rightarrow> nat option" where
  "match_oswald_link = match_tag ''<link'' (ref_variants ''href='' ''neatocal/css/Oswald.css'') ''>''"

definition match_css_link :: "string \<Rightarrow> nat option" where
  "match_css_link = match_tag ''<link'' (ref_variants ''href='' ''neatocal/css/neatocal.css'') ''>''"

definition match_js_script :: "string \<Rightarrow> nat option" where
  "match_js_script = match_tag ''<script'' (ref_variants ''src='' ''neatocal/neatocal.js'') ''></script>''"

text \<open>\<^verbatim>\<open><head[^>]*>\<close>\<close>

definition match_head :: "string \<Rightarrow> nat option" where
  "match_head s =
     (case strip_prefix ''<head'' s of
        None \<Rightarrow> None
      | Some rest \<Rightarrow>
          if CHR ''>'' \<in> set rest
          then Some (length ''<head'' + length (takeWhile (\<lambda>c. c \<noteq> CHR ''>'') rest) + 1)
          else None)"

text \<open>
  \<^verbatim>\<open>re.sub(pattern, function, s)\<close> for a pattern that matches no empty text: the matches
  are taken from left to right, each replaced by the text the function returns, and the
  search goes on behind the match.
\<close>

function re_sub :: "(string \<Rightarrow> nat option) \<Rightarrow> string \<Rightarrow> string \<Rightarrow> string" where
  "re_sub matcher repl [] = []"
| "re_sub matcher repl (c # cs) =
     (case matcher (c # cs) of
        None \<Rightarrow> c # re_sub matcher repl cs
      | Some n \<Rightarrow>
          if 0 < n then repl @ re_sub matcher repl (drop n (c # cs))
          else c # re_sub matcher repl cs)"
  by pat_completeness auto

termination
  by (relation "measure (\<lambda>(matcher, repl, s). length s)") auto

text \<open>
  \<^verbatim>\<open>re.sub(r"(<head[^>]*>)", rf"\1\n{google_fonts}", s, count=1)\<close>: the text is inserted
  behind the first match and nothing else changes.
\<close>

fun sub_head_once :: "string \<Rightarrow> string \<Rightarrow> string" where
  "sub_head_once ins [] = []"
| "sub_head_once ins (c # cs) =
     (case match_head (c # cs) of
        None \<Rightarrow> c # sub_head_once ins cs
      | Some n \<Rightarrow> take n (c # cs) @ ins @ drop n (c # cs))"

definition google_fonts :: string where
  \<open>google_fonts =
     ''<!-- Google Fonts -->\<newline>'' @
     ''<link rel="preconnect" href="https://fonts.googleapis.com">\<newline>'' @
     ''<link rel="preconnect" href="https://fonts.gstatic.com" crossorigin>\<newline>'' @
     ''<link href="https://fonts.googleapis.com/css2?family=Oswald:wght@300;400&display=swap" rel="stylesheet">\<newline>''\<close>

definition css_inline :: "string \<Rightarrow> string" where
  "css_inline css_content =
     ''<!-- NeatoCal CSS (Inline) -->\<newline><style>\<newline>'' @ css_content @ ''\<newline></style>''"

definition js_inline :: "string \<Rightarrow> string" where
  "js_inline js_content =
     ''<!-- NeatoCal JS (Inline) -->\<newline><script>\<newline>'' @ js_content @ ''\<newline></script>''"

text \<open>The rewriting of the document text in \<open>convert_to_standalone\<close>.\<close>

definition rewrite_html :: "string \<Rightarrow> string \<Rightarrow> string \<Rightarrow> string" where
  "rewrite_html css_content js_content html_content =
     (let html_content = re_sub match_oswald_link [] html_content;
          html_content = re_sub match_css_link (css_inline css_content) html_content;
          html_content = re_sub match_js_script (js_inline js_content) html_content
      in if \<not> sublist ''fonts.googleapis.com'' html_content
         then sub_head_once (''\<newline>'' @ google_fonts) html_content
         else html_content)"

text \<open>
  The files the converter reads: the input document and the two files of the bundle next to
  it, each present or not.  The result is the text written to the output path, or nothing
  when the input is missing and the function returns \<^verbatim>\<open>False\<close>.
\<close>

record converter_files =
  input_html :: "string option"
  neatocal_css :: "string option"
  neatocal_js :: "string option"

definition convert_to_standalone :: "converter_files \<Rightarrow> string option" where
  "convert_to_standalone fs =
     (case input_html fs of
        None \<Rightarrow> None
      | Some html_content \<Rightarrow>
          Some (rewrite_html
                  (case neatocal_css fs of None \<Rightarrow> [] | Some css_content \<Rightarrow> css_content)
                  (case neatocal_js fs of None \<Rightarrow> [] | Some js_content \<Rightarrow> js_content)
                  html_content))"

text \<open>Whether a pattern matches somewhere in a text.\<close>

fun has_match :: "(string \<Rightarrow> nat option) \<Rightarrow> string \<Rightarrow> bool" where
  "has_match matcher [] = False"
| "has_match matcher (c # cs) =
     ((case matcher (c # cs) of None \<Rightarrow> False | Some n \<Rightarrow> 0 < n) \<or> has_match matcher cs)"

definition has_bundle_tag :: "string \<Rightarrow> bool" where
  "has_bundle_tag s \<longleftrightarrow>
     has_match match_oswald_link s \<or> has_match match_css_link s \<or> has_match match_js_script s"

text \<open>A document as the merger writes it, and a text in which one font link is wrapped
  around another.\<close>

definition linked_document :: string where
  \<open>linked_document =
     ''<html><head>\<newline>'' @
     ''<link rel='stylesheet' href='./neatocal/css/Oswald.css'>\<newline>'' @
     ''<link rel='stylesheet' href='./neatocal/css/neatocal.css'>\<newline>'' @
     ''<script type='text/javascript' src='./neatocal/neatocal.js'></script>\<newline>'' @
     ''</head><body></body></html>''\<close>

definition nested_link :: string where
  "nested_link = ''<li<link href='neatocal/css/Oswald.css'>nk href='neatocal/css/Oswald.css'>''"

subsection \<open>Auxiliary notions for the statements about the converter\<close>

text \<open>The linked document next to a bundle with a short stylesheet and a short script, and
  what the converter writes for it.\<close>

definition linked_files :: converter_files where
  "linked_files =
     \<lparr>input_html = Some linked_document, neatocal_css = Some ''td {}'', neatocal_js = Some ''var x;''\<rparr>"

definition linked_converted :: string where
  \<open>linked_converted =
     ''<html><head>\<newline>'' @ google_fonts @ ''\<newline>\<newline>'' @
     css_inline ''td {}'' @ ''\<newline>'' @ js_inline ''var x;'' @ ''\<newline>'' @
     ''</head><body></body></html>''\<close>

subsection \<open>Auxiliary notions for the statements about date strings\<close>

text \<open>The number a string of decimal digits stands for.\<close>

definition undec :: "string \<Rightarrow> nat" where
  "undec s = foldl (\<lambda>a c. 10 * a + (of_char c - 48)) 0 s"

section \<open>Project-name normalisation\<close>

lemma PROJECT_MAPPING_distinct: "distinct (map fst PROJECT_MAPPING)"
  by (simp add: PROJECT_MAPPING_def)

text \<open>
  Claim C5.  \<open>normalize_project_name\<close> is a total function that returns the mapped label
  for every repository name that is a key of the mapping table and returns every other
  repository name unchanged; \<open>topaz-stb-test-system\<close> becomes \<open>topaz\<close> and
  \<open>unknown-repo\<close> stays \<open>unknown-repo\<close>.
\<close>

theorem normalize_project_name_total_identity_default:
  "((repo_name, label) \<in> set PROJECT_MAPPING \<longrightarrow> normalize_project_name repo_name = label)
   \<and> (repo_name \<notin> fst ` set PROJECT_MAPPING \<longrightarrow> normalize_project_name repo_name = repo_name)
   \<and> normalize_project_name ''topaz-stb-test-system'' = ''topaz''
   \<and> normalize_project_name ''unknown-repo'' = ''unknown-repo''"
proof (intro conjI impI)
  assume "(repo_name, label) \<in> set PROJECT_MAPPING"
  then have "map_of PROJECT_MAPPING repo_name = Some label"
    using PROJECT_MAPPING_distinct by (rule_tac map_of_is_SomeI)
  then show "normalize_project_name repo_name = label"
    by (simp add: normalize_project_name_def dict_get_def)
next
  assume "repo_name \<notin> fst ` set PROJECT_MAPPING"
  then have "map_of PROJECT_MAPPING repo_name = None"
    by (simp add: map_of_eq_None_iff)
  then show "normalize_project_name repo_name = repo_name"
    by (simp add: normalize_project_name_def dict_get_def)
next
  show "normalize_project_name ''topaz-stb-test-system'' = ''topaz''"
    by (simp add: normalize_project_name_def dict_get_def PROJECT_MAPPING_def)
next
  show "normalize_project_name ''unknown-repo'' = ''unknown-repo''"
    by (simp add: normalize_project_name_def dict_get_def PROJECT_MAPPING_def)
qed

theorem normalize_project_name_witness:
  "(''NetAnalyzer'', ''netmeter'') \<in> set PROJECT_MAPPING
   \<and> normalize_project_name ''NetAnalyzer'' = ''netmeter''
   \<and> ''my-repo'' \<notin> fst ` set PROJECT_MAPPING
   \<and> normalize_project_name ''my-repo'' = ''my-repo''"
proof -
  have a: "(''NetAnalyzer'', ''netmeter'') \<in> set PROJECT_MAPPING"
    by (simp add: PROJECT_MAPPING_def)
  have b: "''my-repo'' \<notin> fst ` set PROJECT_MAPPING"
    by (simp add: PROJECT_MAPPING_def)
  show ?thesis
    using a b
      normalize_project_name_total_identity_default [of "''NetAnalyzer''" "''netmeter''"]
      normalize_project_name_total_identity_default [of "''my-repo''" "''x''"]
    by blast
qed

section \<open>Activity levels\<close>

subsection \<open>Rounding of a quotient to a float\<close>

lemma round_half_even_cases:
  "round_half_even y = \<lfloor>y\<rfloor> \<and> y - rat_of_int \<lfloor>y\<rfloor> \<le> 1 / 2 \<or>
   round_half_even y = \<lfloor>y\<rfloor> + 1 \<and> 1 / 2 \<le> y - rat_of_int \<lfloor>y\<rfloor>"
  by (auto simp: round_half_even_def Let_def)

lemma round_half_even_bounds:
  "rat_of_int (round_half_even y) \<le> y + 1 / 2" "y - 1 / 2 \<le> rat_of_int (round_half_even y)"
proof -
  have f: "rat_of_int \<lfloor>y\<rfloor> \<le> y" "y < rat_of_int \<lfloor>y\<rfloor> + 1"
    by linarith+
  consider "rat_of_int (round_half_even y) = rat_of_int \<lfloor>y\<rfloor>" "y - rat_of_int \<lfloor>y\<rfloor> \<le> 1 / 2"
    | "rat_of_int (round_half_even y) = rat_of_int \<lfloor>y\<rfloor> + 1" "1 / 2 \<le> y - rat_of_int \<lfloor>y\<rfloor>"
    using round_half_even_cases [of y] by auto
  then have "rat_of_int (round_half_even y) \<le> y + 1 / 2 \<and> y - 1 / 2 \<le> rat_of_int (round_half_even y)"
  proof cases
    case 1
    then show ?thesis using f by linarith
  next
    case 2
    then show ?thesis using f by linarith
  qed
  then show "rat_of_int (round_half_even y) \<le> y + 1 / 2"
    and "y - 1 / 2 \<le> rat_of_int (round_half_even y)"
    by simp_all
qed

lemma round_half_even_le:
  assumes "y \<le> rat_of_int N"
  shows "round_half_even y \<le> N"
proof -
  have fl: "\<lfloor>y\<rfloor> \<le> N"
    using assms by (simp add: floor_le_iff)
  show ?thesis
  proof (cases "\<lfloor>y\<rfloor> = N")
    case True
    then have "y = rat_of_int N"
      using assms by (metis floor_le_iff of_int_floor_le order_antisym True)
    then show ?thesis
      by (simp add: round_half_even_def Let_def)
  next
    case False
    with fl have "\<lfloor>y\<rfloor> + 1 \<le> N" by simp
    then show ?thesis
      using fl by (auto simp: round_half_even_def Let_def)
  qed
qed

lemma round_half_even_ge:
  assumes "rat_of_int N \<le> y"
  shows "N \<le> round_half_even y"
proof -
  have "N \<le> \<lfloor>y\<rfloor>"
    using assms by (simp add: le_floor_iff)
  then show ?thesis
    by (auto simp: round_half_even_def Let_def)
qed

lemma exponent2_bounds:
  assumes "0 < a" and "0 < b"
  shows "2 powi (exponent2 a b) \<le> rat_of_int a / rat_of_int b"
    and "rat_of_int a / rat_of_int b < 2 powi (exponent2 a b + 1)"
proof -
  let ?la = "bitlen a" and ?lb = "bitlen b"
  let ?x = "rat_of_int a / rat_of_int b"
  let ?e0 = "?la - ?lb"
  have ba: "2 ^ nat (?la - 1) \<le> a" "a < 2 ^ nat ?la"
    and bb: "2 ^ nat (?lb - 1) \<le> b" "b < 2 ^ nat ?lb"
    using bitlen_bounds [OF assms(1)] bitlen_bounds [OF assms(2)] by simp_all
  have la: "0 < ?la" and lb: "0 < ?lb"
    using assms bitlen_eq_zero_iff [of a] bitlen_eq_zero_iff [of b] bitlen_nonneg [of a]
      bitlen_nonneg [of b] by linarith+
  have "rat_of_int (2 ^ nat (?la - 1)) \<le> rat_of_int a" "rat_of_int a < rat_of_int (2 ^ nat ?la)"
    using ba by (simp_all only: of_int_le_iff of_int_less_iff)
  then have ra: "2 powi (?la - 1) \<le> rat_of_int a" "rat_of_int a < 2 powi ?la"
    using la by (simp_all add: power_int_def)
  have "rat_of_int (2 ^ nat (?lb - 1)) \<le> rat_of_int b" "rat_of_int b < rat_of_int (2 ^ nat ?lb)"
    using bb by (simp_all only: of_int_le_iff of_int_less_iff)
  then have rb: "2 powi (?lb - 1) \<le> rat_of_int b" "rat_of_int b < 2 powi ?lb"
    using lb by (simp_all add: power_int_def)
  have pa: "0 < rat_of_int a" and pb: "0 < rat_of_int b"
    using assms by simp_all
  have up: "?x < 2 powi (?e0 + 1)"
  proof -
    have "?x < 2 powi ?la / 2 powi (?lb - 1)"
      using ra(2) rb(1) pa pb by (intro frac_less) simp_all
    also have "\<dots> = 2 powi (?la - (?lb - 1))"
      by (simp add: power_int_diff)
    also have "?la - (?lb - 1) = ?e0 + 1"
      by simp
    finally show ?thesis .
  qed
  have lo: "2 powi (?e0 - 1) \<le> ?x"
  proof -
    have "(2::rat) powi (?e0 - 1) = 2 powi ((?la - 1) - ?lb)"
      by (simp add: algebra_simps)
    also have "\<dots> = 2 powi (?la - 1) / 2 powi ?lb"
      by (simp add: power_int_diff)
    also have "\<dots> \<le> ?x"
      using ra(1) less_imp_le [OF rb(2)] pa pb by (intro frac_le) simp_all
    finally show ?thesis .
  qed
  show "2 powi (exponent2 a b) \<le> ?x"
    using lo by (simp add: exponent2_def Let_def)
  show "?x < 2 powi (exponent2 a b + 1)"
    using up by (auto simp: exponent2_def Let_def not_le)
qed

lemma pow2_less_iff: "(2::rat) powi m < 2 powi n \<longleftrightarrow> m < n"
proof
  assume l: "(2::rat) powi m < 2 powi n"
  show "m < n"
  proof (rule ccontr)
    assume "\<not> m < n"
    then have "n \<le> m" by simp
    then have "(2::rat) powi n \<le> 2 powi m"
      by (intro power_int_increasing) simp_all
    with l show False by simp
  qed
next
  assume "m < n"
  then show "(2::rat) powi m < 2 powi n"
    by (intro power_int_strict_increasing) simp_all
qed

lemma pow2_le_iff: "(2::rat) powi m \<le> 2 powi n \<longleftrightarrow> m \<le> n"
  using pow2_less_iff [of n m] by (simp add: not_less [symmetric])

lemma pow2_multiple:
  assumes "q \<le> e"
  shows "(2::rat) powi e = rat_of_int (2 ^ nat (e - q)) * 2 powi q"
proof -
  have "(2::rat) powi e = 2 powi ((e - q) + q)"
    by simp
  also have "\<dots> = 2 powi (e - q) * 2 powi q"
    by (rule power_int_add) simp
  also have "(2::rat) powi (e - q) = rat_of_int (2 ^ nat (e - q))"
    using assms by (simp add: power_int_def)
  finally show ?thesis .
qed

lemma round_to_le:
  assumes "x \<le> rat_of_int N * 2 powi q"
  shows "round_to q x \<le> rat_of_int N * 2 powi q"
proof -
  have p: "0 < (2::rat) powi q"
    by simp
  from assms p have "x / 2 powi q \<le> rat_of_int N"
    by (simp add: pos_divide_le_eq)
  then have "round_half_even (x / 2 powi q) \<le> N"
    by (rule round_half_even_le)
  then have "rat_of_int (round_half_even (x / 2 powi q)) \<le> rat_of_int N"
    by simp
  then show ?thesis
    unfolding round_to_def using p by (intro mult_right_mono) simp_all
qed

lemma round_to_ge:
  assumes "rat_of_int N * 2 powi q \<le> x"
  shows "rat_of_int N * 2 powi q \<le> round_to q x"
proof -
  have p: "0 < (2::rat) powi q"
    by simp
  from assms p have "rat_of_int N \<le> x / 2 powi q"
    by (simp add: pos_le_divide_eq)
  then have "N \<le> round_half_even (x / 2 powi q)"
    by (rule round_half_even_ge)
  then have "rat_of_int N \<le> rat_of_int (round_half_even (x / 2 powi q))"
    by simp
  then show ?thesis
    unfolding round_to_def using p by (intro mult_right_mono) simp_all
qed

lemma round_to_near:
  "x - 2 powi q / 2 \<le> round_to q x" "round_to q x \<le> x + 2 powi q / 2"
proof -
  define p where "p = (2::rat) powi q"
  define n where "n = rat_of_int (round_half_even (x / p))"
  have p: "0 < p"
    by (simp add: p_def)
  have b: "n \<le> x / p + 1 / 2" "x / p - 1 / 2 \<le> n"
    unfolding n_def by (rule round_half_even_bounds)+
  have r: "round_to q x = n * p"
    by (simp add: round_to_def n_def p_def)
  from b(2) p have "(x / p - 1 / 2) * p \<le> n * p"
    by (intro mult_right_mono) simp_all
  moreover have "(x / p - 1 / 2) * p = x - p / 2"
    using p by (simp add: field_simps)
  ultimately have "x - p / 2 \<le> n * p"
    by simp
  then show "x - 2 powi q / 2 \<le> round_to q x"
    by (simp only: r p_def)
  from b(1) p have "n * p \<le> (x / p + 1 / 2) * p"
    by (intro mult_right_mono) simp_all
  moreover have "(x / p + 1 / 2) * p = x + p / 2"
    using p by (simp add: field_simps)
  ultimately have "n * p \<le> x + p / 2"
    by simp
  then show "round_to q x \<le> x + 2 powi q / 2"
    by (simp only: r p_def)
qed

lemma exponent2_less:
  assumes "0 < a" and "0 < b" and "rat_of_int a / rat_of_int b < 2 powi n"
  shows "exponent2 a b < n"
proof -
  have "2 powi (exponent2 a b) < (2::rat) powi n"
    using exponent2_bounds(1) [OF assms(1,2)] assms(3) by (rule le_less_trans)
  then show ?thesis
    by (simp only: pow2_less_iff)
qed

lemma exponent2_ge:
  assumes "0 < a" and "0 < b" and "2 powi n \<le> rat_of_int a / rat_of_int b"
  shows "n \<le> exponent2 a b"
proof -
  have "(2::rat) powi n < 2 powi (exponent2 a b + 1)"
    using assms(3) exponent2_bounds(2) [OF assms(1,2)] by (rule le_less_trans)
  then have "n < exponent2 a b + 1"
    by (simp only: pow2_less_iff)
  then show ?thesis
    by simp
qed

lemma half_pow2: "(2::rat) powi q / 2 = 2 powi (q - 1)"
  by (simp add: power_int_diff)

lemma float_of_quotient_no_overflow:
  assumes "0 < a" and "0 < b" and "rat_of_int a / rat_of_int b < 2 ^ 1024 - 2 ^ 970"
  shows "float_of_quotient a b =
     Inr (round_to (max (exponent2 a b - 52) (- 1074)) (rat_of_int a / rat_of_int b))"
proof -
  define x where "x = rat_of_int a / rat_of_int b"
  define q where "q = max (exponent2 a b - 52) (- 1074)"
  have "x < 2 ^ 1024"
    using assms(3) by (simp add: x_def)
  then have "x < 2 powi 1024"
    by simp
  then have "exponent2 a b < 1024"
    unfolding x_def by (rule exponent2_less [OF assms(1,2)])
  then have "q - 1 \<le> 970"
    by (simp add: q_def)
  then have "(2::rat) powi (q - 1) \<le> 2 powi 970"
    by (simp only: pow2_le_iff)
  then have "(2::rat) powi q / 2 \<le> 2 ^ 970"
    by (simp add: half_pow2)
  with round_to_near(2) [of q x] have "round_to q x \<le> x + 2 ^ 970"
    by linarith
  with assms(3) have "round_to q x < 2 ^ 1024"
    unfolding x_def by linarith
  then show ?thesis
    by (simp add: float_of_quotient_def Let_def x_def q_def not_le [symmetric])
qed

lemma float_of_quotient_overflow:
  assumes "0 < a" and "0 < b" and "2 ^ 1024 \<le> rat_of_int a / rat_of_int b"
  shows "float_of_quotient a b = Inl OverflowError"
proof -
  define x where "x = rat_of_int a / rat_of_int b"
  define e where "e = exponent2 a b"
  define q where "q = max (e - 52) (- 1074)"
  have "2 powi 1024 \<le> x"
    using assms(3) by (simp add: x_def)
  then have e: "1024 \<le> e"
    unfolding x_def e_def by (rule exponent2_ge [OF assms(1,2)])
  then have q: "q \<le> e"
    by (simp add: q_def)
  have "2 powi e \<le> x"
    unfolding x_def e_def by (rule exponent2_bounds(1) [OF assms(1,2)])
  then have "rat_of_int (2 ^ nat (e - q)) * 2 powi q \<le> x"
    using pow2_multiple [OF q] by simp
  then have "rat_of_int (2 ^ nat (e - q)) * 2 powi q \<le> round_to q x"
    by (rule round_to_ge)
  then have "2 powi e \<le> round_to q x"
    using pow2_multiple [OF q] by simp
  moreover have "(2::rat) powi 1024 \<le> 2 powi e"
    using e by (simp only: pow2_le_iff)
  ultimately have "2 powi 1024 \<le> round_to q x"
    by (rule order_trans [rotated])
  then have "2 ^ 1024 \<le> round_to q x"
    by simp
  then show ?thesis
    by (simp add: float_of_quotient_def Let_def x_def q_def e_def)
qed


lemma quarter_multiple:
  assumes "q \<le> - 2"
  shows "rat_of_int k / 4 = rat_of_int (k * 2 ^ nat (- 2 - q)) * 2 powi q"
proof -
  have "(2::rat) powi (- 2) = rat_of_int (2 ^ nat (- 2 - q)) * 2 powi q"
    using assms by (rule pow2_multiple)
  moreover have "(2::rat) powi (- 2) = 1 / 4"
    by (simp add: power_int_minus_divide)
  ultimately have "1 / 4 = rat_of_int (2 ^ nat (- 2 - q)) * 2 powi q"
    by simp
  then have "rat_of_int k * (1 / 4) = rat_of_int k * (rat_of_int (2 ^ nat (- 2 - q)) * 2 powi q)"
    by simp
  then show ?thesis
    by (simp add: mult.assoc)
qed

lemma gap_above_quarter:
  fixes a b k :: int
  assumes "k * b < 4 * a" and "0 < b" and "b \<le> 2 ^ 52" and "k \<in> {1, 2, 3}"
  shows "(k * 2 ^ 52 + 1) * b < 2 ^ 54 * a"
proof (cases "b = 2 ^ 52")
  case True
  from assms(4) consider "k = 1" | "k = 2" | "k = 3"
    by auto
  then show ?thesis
  proof cases
    case 1
    with assms(1) True have "2 ^ 50 < a" by simp
    then show ?thesis using 1 True by simp
  next
    case 2
    with assms(1) True have "2 ^ 51 < a" by simp
    then show ?thesis using 2 True by simp
  next
    case 3
    with assms(1) True have "3 * 2 ^ 50 < a" by simp
    then show ?thesis using 3 True by simp
  qed
next
  case False
  with assms(3) have "b < 2 ^ 52"
    by simp
  with assms show ?thesis
    by auto
qed


lemma float_le_quarter:
  assumes a: "0 < a" and b: "0 < b" and k: "k \<in> {1, 2, 3}"
    and le: "rat_of_int a / rat_of_int b \<le> rat_of_int k / 4"
  shows "\<exists>v. float_of_quotient a b = Inr v \<and> v \<le> rat_of_int k / 4"
proof -
  define x where "x = rat_of_int a / rat_of_int b"
  define q where "q = max (exponent2 a b - 52) (- 1074)"
  have "rat_of_int k / 4 < 1"
    using k by auto
  with le have x1: "x < 1"
    unfolding x_def by (rule le_less_trans)
  then have "x < 2 powi 0"
    by simp
  then have "exponent2 a b < 0"
    unfolding x_def by (rule exponent2_less [OF a b])
  then have q: "q \<le> - 2"
    by (simp add: q_def)
  have "x \<le> rat_of_int (k * 2 ^ nat (- 2 - q)) * 2 powi q"
    using le quarter_multiple [OF q, of k] by (simp only: x_def)
  then have "round_to q x \<le> rat_of_int (k * 2 ^ nat (- 2 - q)) * 2 powi q"
    by (rule round_to_le)
  then have "round_to q x \<le> rat_of_int k / 4"
    using quarter_multiple [OF q, of k] by (simp only:)
  moreover have "x < 2 ^ 1024 - 2 ^ 970"
    using x1 by simp
  then have "float_of_quotient a b = Inr (round_to q x)"
    unfolding q_def x_def by (rule float_of_quotient_no_overflow [OF a b])
  ultimately show ?thesis
    by simp
qed

lemma round_half_even_below_half:
  assumes "y < rat_of_int N + 1 / 2"
  shows "round_half_even y \<le> N"
proof -
  have f: "rat_of_int \<lfloor>y\<rfloor> \<le> y"
    by linarith
  with assms have "rat_of_int \<lfloor>y\<rfloor> < rat_of_int N + 1"
    by linarith
  then have "rat_of_int \<lfloor>y\<rfloor> < rat_of_int (N + 1)"
    by simp
  then have "\<lfloor>y\<rfloor> < N + 1"
    by (simp only: of_int_less_iff)
  then have fl: "\<lfloor>y\<rfloor> \<le> N"
    by simp
  show ?thesis
  proof (cases "\<lfloor>y\<rfloor> = N")
    case True
    with assms have "y - rat_of_int \<lfloor>y\<rfloor> < 1 / 2"
      by simp
    then show ?thesis
      using True by (simp add: round_half_even_def Let_def)
  next
    case False
    with fl have "\<lfloor>y\<rfloor> + 1 \<le> N"
      by simp
    then show ?thesis
      using fl by (auto simp: round_half_even_def Let_def)
  qed
qed

lemma round_to_below_half:
  assumes "x < rat_of_int N * 2 powi q + 2 powi q / 2"
  shows "round_to q x \<le> rat_of_int N * 2 powi q"
proof -
  have p: "0 < (2::rat) powi q"
    by simp
  have "rat_of_int N * 2 powi q + 2 powi q / 2 = (rat_of_int N + 1 / 2) * 2 powi q"
    by (simp add: algebra_simps)
  with assms have "x < (rat_of_int N + 1 / 2) * 2 powi q"
    by simp
  with p have "x / 2 powi q < rat_of_int N + 1 / 2"
    by (simp add: pos_divide_less_eq)
  then have "round_half_even (x / 2 powi q) \<le> N"
    by (rule round_half_even_below_half)
  then have "rat_of_int (round_half_even (x / 2 powi q)) \<le> rat_of_int N"
    by simp
  then show ?thesis
    unfolding round_to_def using p by (intro mult_right_mono) simp_all
qed

lemma float_gt_margin:
  assumes a: "0 < a" and b: "0 < b"
    and x1: "rat_of_int a / rat_of_int b < 1"
    and gt: "t + 1 / 2 ^ 54 < rat_of_int a / rat_of_int b"
  shows "\<exists>v. float_of_quotient a b = Inr v \<and> t < v"
proof -
  define x where "x = rat_of_int a / rat_of_int b"
  define e where "e = exponent2 a b"
  define q where "q = max (e - 52) (- 1074)"
  have "x < 2 ^ 1024 - 2 ^ 970"
    using x1 by (simp add: x_def)
  then have fq: "float_of_quotient a b = Inr (round_to q x)"
    unfolding q_def x_def e_def by (rule float_of_quotient_no_overflow [OF a b])
  have "x < 2 powi 0"
    using x1 by (simp add: x_def)
  then have "e < 0"
    unfolding x_def e_def by (rule exponent2_less [OF a b])
  then have "q - 1 \<le> - 54"
    by (simp add: q_def)
  then have "(2::rat) powi (q - 1) \<le> 2 powi (- 54)"
    by (simp only: pow2_le_iff)
  moreover have "(2::rat) powi (- 54) = 1 / 2 ^ 54"
    by (simp add: power_int_minus_divide)
  ultimately have "(2::rat) powi q / 2 \<le> 1 / 2 ^ 54"
    by (simp only: half_pow2)
  with gt have "t < x - 2 powi q / 2"
    unfolding x_def by linarith
  with round_to_near(1) [of x q] have "t < round_to q x"
    by linarith
  with fq show ?thesis
    by simp
qed

lemma float_gt_quarter:
  assumes a: "0 < a" and b: "0 < b" and k: "k \<in> {1, 2, 3}"
    and small: "b \<le> 2 ^ 52"
    and gt: "rat_of_int k / 4 < rat_of_int a / rat_of_int b"
    and no: "rat_of_int a / rat_of_int b < 2 ^ 1024 - 2 ^ 970"
  shows "\<exists>v. float_of_quotient a b = Inr v \<and> rat_of_int k / 4 < v"
proof (cases "rat_of_int a / rat_of_int b < 1")
  case True
  have pb: "0 < rat_of_int b"
    using b by simp
  from gt pb have "rat_of_int k * rat_of_int b < 4 * rat_of_int a"
    by (simp add: field_simps)
  then have "rat_of_int (k * b) < rat_of_int (4 * a)"
    by simp
  then have "k * b < 4 * a"
    by (simp only: of_int_less_iff)
  moreover have "0 < b" "b \<le> 2 ^ 52"
    using b small by simp_all
  ultimately have "(k * 2 ^ 52 + 1) * b < 2 ^ 54 * a"
    using k by (intro gap_above_quarter)
  then have "rat_of_int ((k * 2 ^ 52 + 1) * b) < rat_of_int (2 ^ 54 * a)"
    by (simp only: of_int_less_iff)
  then have "(rat_of_int k * 2 ^ 52 + 1) * rat_of_int b < 2 ^ 54 * rat_of_int a"
    by simp
  then have "rat_of_int k / 4 + 1 / 2 ^ 54 < rat_of_int a / rat_of_int b"
    using pb by (simp add: field_simps)
  with a b True show ?thesis
    by (rule float_gt_margin)
next
  case False
  define x where "x = rat_of_int a / rat_of_int b"
  define e where "e = exponent2 a b"
  define q where "q = max (e - 52) (- 1074)"
  have k1: "rat_of_int k / 4 < 1"
    using k by auto
  have fq: "float_of_quotient a b = Inr (round_to q x)"
    unfolding q_def x_def e_def using no by (rule float_of_quotient_no_overflow [OF a b])
  from False have "2 powi 0 \<le> x"
    by (simp add: x_def)
  then have e0: "0 \<le> e"
    unfolding x_def e_def by (rule exponent2_ge [OF a b])
  then have q: "q \<le> e"
    by (simp add: q_def)
  have "2 powi e \<le> x"
    unfolding x_def e_def by (rule exponent2_bounds(1) [OF a b])
  then have "rat_of_int (2 ^ nat (e - q)) * 2 powi q \<le> x"
    using pow2_multiple [OF q] by simp
  then have "rat_of_int (2 ^ nat (e - q)) * 2 powi q \<le> round_to q x"
    by (rule round_to_ge)
  then have "2 powi e \<le> round_to q x"
    using pow2_multiple [OF q] by simp
  moreover have "(2::rat) powi 0 \<le> 2 powi e"
    using e0 by (simp only: pow2_le_iff)
  ultimately have "1 \<le> round_to q x"
    by simp
  with k1 have "rat_of_int k / 4 < round_to q x"
    by linarith
  with fq show ?thesis
    by simp
qed

lemma float_quarter_iff:
  assumes a: "0 < a" and b: "0 < b" and small: "b \<le> 2 ^ 52"
    and no: "rat_of_int a / rat_of_int b < 2 ^ 1024 - 2 ^ 970"
  shows "\<exists>v. float_of_quotient a b = Inr v
     \<and> (v \<le> 1 / 4 \<longleftrightarrow> rat_of_int a / rat_of_int b \<le> 1 / 4)
     \<and> (v \<le> 1 / 2 \<longleftrightarrow> rat_of_int a / rat_of_int b \<le> 1 / 2)
     \<and> (v \<le> 3 / 4 \<longleftrightarrow> rat_of_int a / rat_of_int b \<le> 3 / 4)"
proof -
  from float_of_quotient_no_overflow [OF a b no] obtain v where v: "float_of_quotient a b = Inr v"
    by blast
  have "v \<le> rat_of_int k / 4 \<longleftrightarrow> rat_of_int a / rat_of_int b \<le> rat_of_int k / 4"
    if k: "k \<in> {1, 2, 3}" for k
  proof (cases "rat_of_int a / rat_of_int b \<le> rat_of_int k / 4")
    case True
    with float_le_quarter [OF a b k] v show ?thesis
      by auto
  next
    case False
    then have "rat_of_int k / 4 < rat_of_int a / rat_of_int b"
      by simp
    from float_gt_quarter [OF a b k small this no] v False show ?thesis
      by auto
  qed
  from this [of 1] this [of 2] this [of 3] v show ?thesis
    by simp
qed

lemma py_truediv_pos:
  assumes "0 < count" and "0 < max_count"
  shows "py_truediv count max_count = float_of_quotient count max_count"
  using assms by (simp add: py_truediv_def split: sum.split)

lemma calculate_level_in_range:
  assumes "0 \<le> count" and "1 \<le> max_count" and "max_count \<le> 2 ^ 52"
    and "rat_of_int count / rat_of_int max_count < 2 ^ 1024 - 2 ^ 970"
  shows "calculate_level count max_count =
       Inr (if count = 0 then 0
            else if rat_of_int count / rat_of_int max_count \<le> 1 / 4 then 1
            else if rat_of_int count / rat_of_int max_count \<le> 1 / 2 then 2
            else if rat_of_int count / rat_of_int max_count \<le> 3 / 4 then 3
            else 4)"
proof (cases "count = 0")
  case True
  then show ?thesis
    by (simp add: calculate_level_def)
next
  case False
  with assms(1) have c: "0 < count"
    by simp
  have m: "0 < max_count"
    using assms(2) by simp
  from float_quarter_iff [OF c m assms(3,4)] obtain v where
    "float_of_quotient count max_count = Inr v"
    "v \<le> 1 / 4 \<longleftrightarrow> rat_of_int count / rat_of_int max_count \<le> 1 / 4"
    "v \<le> 1 / 2 \<longleftrightarrow> rat_of_int count / rat_of_int max_count \<le> 1 / 2"
    "v \<le> 3 / 4 \<longleftrightarrow> rat_of_int count / rat_of_int max_count \<le> 3 / 4"
    by blast
  then show ?thesis
    using False by (simp add: calculate_level_def py_truediv_pos [OF c m])
qed


lemma calculate_level_total:
  assumes "0 \<le> count" and "count \<le> max_count"
  shows "\<exists>l. calculate_level count max_count = Inr l"
proof (cases "count = 0")
  case True
  then show ?thesis
    by (simp add: calculate_level_def)
next
  case False
  with assms have c: "0 < count" and m: "0 < max_count"
    by simp_all
  have "rat_of_int count / rat_of_int max_count \<le> 1"
    using assms(2) m by simp
  moreover have "(1::rat) < 2 ^ 1024 - 2 ^ 970"
    by simp
  ultimately have "rat_of_int count / rat_of_int max_count < 2 ^ 1024 - 2 ^ 970"
    by (rule le_less_trans)
  with c m obtain v where "float_of_quotient count max_count = Inr v"
    using float_of_quotient_no_overflow by blast
  then show ?thesis
    using False by (simp add: calculate_level_def py_truediv_pos [OF c m])
qed

lemma level_mono:
  fixes r r' :: rat and c c' :: int
  assumes "r \<le> r'" and "c' = 0 \<Longrightarrow> c = 0"
  shows "(if c = 0 then 0 else if r \<le> 1 / 4 then 1 else if r \<le> 1 / 2 then 2
          else if r \<le> 3 / 4 then 3 else (4::nat))
       \<le> (if c' = 0 then 0 else if r' \<le> 1 / 4 then 1 else if r' \<le> 1 / 2 then 2
          else if r' \<le> 3 / 4 then 3 else 4)"
  using assms by auto

lemma round_half_even_mono:
  assumes "y \<le> y'"
  shows "round_half_even y \<le> round_half_even y'"
proof (cases "\<lfloor>y\<rfloor> = \<lfloor>y'\<rfloor>")
  case True
  with assms have "y - rat_of_int \<lfloor>y\<rfloor> \<le> y' - rat_of_int \<lfloor>y'\<rfloor>"
    by simp
  then show ?thesis
    using True by (auto simp: round_half_even_def Let_def)
next
  case False
  moreover have "\<lfloor>y\<rfloor> \<le> \<lfloor>y'\<rfloor>"
    using assms by (rule floor_mono)
  ultimately have "\<lfloor>y\<rfloor> + 1 \<le> \<lfloor>y'\<rfloor>"
    by simp
  moreover have "round_half_even y \<le> \<lfloor>y\<rfloor> + 1"
    using round_half_even_cases [of y] by auto
  moreover have "\<lfloor>y'\<rfloor> \<le> round_half_even y'"
    using round_half_even_cases [of y'] by auto
  ultimately show ?thesis
    by linarith
qed

lemma round_to_mono:
  assumes "x \<le> x'"
  shows "round_to q x \<le> round_to q x'"
proof -
  have p: "0 < (2::rat) powi q"
    by simp
  with assms have "x / 2 powi q \<le> x' / 2 powi q"
    by (simp add: divide_right_mono)
  then have "round_half_even (x / 2 powi q) \<le> round_half_even (x' / 2 powi q)"
    by (rule round_half_even_mono)
  then have "rat_of_int (round_half_even (x / 2 powi q))
      \<le> rat_of_int (round_half_even (x' / 2 powi q))"
    by simp
  then show ?thesis
    unfolding round_to_def using p by (intro mult_right_mono) simp_all
qed

lemma float_of_quotient_mono:
  assumes a: "0 < a" and b: "0 < b" and a': "0 < a'" and b': "0 < b'"
    and le: "rat_of_int a / rat_of_int b \<le> rat_of_int a' / rat_of_int b'"
    and no: "rat_of_int a' / rat_of_int b' < 2 ^ 1024 - 2 ^ 970"
  shows "\<exists>v v'. float_of_quotient a b = Inr v \<and> float_of_quotient a' b' = Inr v' \<and> v \<le> v'"
proof -
  define x where "x = rat_of_int a / rat_of_int b"
  define x' where "x' = rat_of_int a' / rat_of_int b'"
  define e where "e = exponent2 a b"
  define e' where "e' = exponent2 a' b'"
  define q where "q = max (e - 52) (- 1074)"
  define q' where "q' = max (e' - 52) (- 1074)"
  have xx: "x \<le> x'"
    using le by (simp add: x_def x'_def)
  have "x < 2 ^ 1024 - 2 ^ 970"
    using xx no unfolding x'_def by (rule le_less_trans)
  then have fq: "float_of_quotient a b = Inr (round_to q x)"
    unfolding q_def x_def e_def by (rule float_of_quotient_no_overflow [OF a b])
  have fq': "float_of_quotient a' b' = Inr (round_to q' x')"
    unfolding q'_def x'_def e'_def using no by (rule float_of_quotient_no_overflow [OF a' b'])
  have eb: "2 powi e \<le> x" "x < 2 powi (e + 1)"
    unfolding x_def e_def by (rule exponent2_bounds [OF a b])+
  have eb': "2 powi e' \<le> x'" "x' < 2 powi (e' + 1)"
    unfolding x'_def e'_def by (rule exponent2_bounds [OF a' b'])+
  have "(2::rat) powi e < 2 powi (e' + 1)"
    using eb(1) xx eb'(2) by linarith
  then have ee: "e \<le> e'"
    by (simp add: pow2_less_iff)
  then have qq: "q \<le> q'"
    by (simp add: q_def q'_def)
  have x0: "0 < x'"
    using a' b' by (simp add: x'_def)
  have "round_to q x \<le> round_to q' x'"
  proof (cases "q = q'")
    case True
    then show ?thesis
      using xx by (simp add: round_to_mono)
  next
    case False
    with qq have lt: "q < q'"
      by simp
    then have q': "q' = e' - 52" and elt: "e < e'"
      by (auto simp: q_def q'_def)
    then have "q' \<le> e'"
      by simp
    then have m': "(2::rat) powi e' = rat_of_int (2 ^ nat (e' - q')) * 2 powi q'"
      by (rule pow2_multiple)
    with eb'(1) have "rat_of_int (2 ^ nat (e' - q')) * 2 powi q' \<le> round_to q' x'"
      by (intro round_to_ge) simp
    then have hi: "2 powi e' \<le> round_to q' x'"
      by (simp only: m')
    show ?thesis
    proof (cases "q \<le> e + 1")
      case True
      then have m: "(2::rat) powi (e + 1) = rat_of_int (2 ^ nat (e + 1 - q)) * 2 powi q"
        by (rule pow2_multiple)
      with eb(2) have "round_to q x \<le> rat_of_int (2 ^ nat (e + 1 - q)) * 2 powi q"
        by (intro round_to_le) simp
      then have "round_to q x \<le> 2 powi (e + 1)"
        by (simp only: m)
      moreover have "(2::rat) powi (e + 1) \<le> 2 powi e'"
        using elt by (simp add: pow2_le_iff)
      ultimately show ?thesis
        using hi by linarith
    next
      case False
      then have "e + 1 \<le> q - 1"
        by simp
      then have "(2::rat) powi (e + 1) \<le> 2 powi (q - 1)"
        by (simp only: pow2_le_iff)
      with eb(2) have "x < rat_of_int 0 * 2 powi q + 2 powi q / 2"
        by (simp add: half_pow2)
      then have "round_to q x \<le> rat_of_int 0 * 2 powi q"
        by (rule round_to_below_half)
      moreover have "(0::rat) < 2 powi e'"
        by simp
      ultimately show ?thesis
        using hi by linarith
    qed
  qed
  with fq fq' show ?thesis
    by simp
qed

lemma calculate_level_mono:
  assumes "0 \<le> count" and "count \<le> count'" and "1 \<le> max_count"
    and no: "rat_of_int count' / rat_of_int max_count < 2 ^ 1024 - 2 ^ 970"
  shows "\<exists>l l'. calculate_level count max_count = Inr l
           \<and> calculate_level count' max_count = Inr l' \<and> l \<le> l'"
proof (cases "count = 0")
  case True
  have m: "0 < max_count"
    using assms(3) by simp
  show ?thesis
  proof (cases "count' = 0")
    case z: True
    with True show ?thesis
      by (simp add: calculate_level_def)
  next
    case False
    with assms(1,2) have c': "0 < count'"
      by simp
    from float_of_quotient_no_overflow [OF c' m no]
    obtain v where "float_of_quotient count' max_count = Inr v"
      by blast
    then have "\<exists>l'. calculate_level count' max_count = Inr l'"
      using False by (simp add: calculate_level_def py_truediv_pos [OF c' m])
    then show ?thesis
      using True by (auto simp: calculate_level_def)
  qed
next
  case False
  with assms have c: "0 < count" and c': "0 < count'" and m: "0 < max_count"
    by simp_all
  have "rat_of_int count / rat_of_int max_count \<le> rat_of_int count' / rat_of_int max_count"
    using assms(2) m by (intro divide_right_mono) simp_all
  from float_of_quotient_mono [OF c m c' m this no] obtain v v' where
    v: "float_of_quotient count max_count = Inr v"
      "float_of_quotient count' max_count = Inr v'" "v \<le> v'"
    by blast
  have z: "count' = 0 \<Longrightarrow> count = 0"
    using c' by simp
  have "calculate_level count max_count =
      Inr (if count = 0 then 0 else if v \<le> 1 / 4 then 1 else if v \<le> 1 / 2 then 2
           else if v \<le> 3 / 4 then 3 else 4)"
    using c v(1) by (simp add: calculate_level_def py_truediv_pos [OF c m])
  moreover have "calculate_level count' max_count =
      Inr (if count' = 0 then 0 else if v' \<le> 1 / 4 then 1 else if v' \<le> 1 / 2 then 2
           else if v' \<le> 3 / 4 then 3 else 4)"
    using c' v(2) by (simp add: calculate_level_def py_truediv_pos [OF c' m])
  ultimately show ?thesis
    using level_mono [where r = v and r' = v' and c = count and c' = count', OF v(3) z]
    by (simp only: sum.inject) blast
qed

text \<open>
  Claim C2.  \<open>calculate_level\<close> returns 0 when the count is 0, and otherwise 1 if
  \<open>count / max_count \<le> 0.25\<close>, 2 if it is at most 0.5, 3 if it is at most 0.75, and 4
  otherwise; the bounds are inclusive, the level never decreases when the count grows for a
  fixed \<open>max_count\<close>, and for \<open>max_count = 100\<close> the counts 0, 25, 26, 50, 51, 75, 76, 100
  have the levels 0, 1, 2, 2, 3, 3, 4, 4.  The quotient of the code is a float and the
  quotient of the claim is the exact one.  The levels are those of the exact quotient for
  \<open>count \<ge> 0\<close> and \<open>1 \<le> max_count \<le> 2^52\<close> with an exact quotient below
  \<open>2^1024 - 2^970\<close>, under which the division returns a float; the level does not
  decrease with the count for every \<open>max_count \<ge> 1\<close>, as long as the quotient of the
  larger count is below that bound.
\<close>

theorem calculate_level_thresholds_in_range:
  "(0 \<le> count \<and> 1 \<le> max_count \<and> max_count \<le> 2 ^ 52
      \<and> rat_of_int count / rat_of_int max_count < 2 ^ 1024 - 2 ^ 970 \<longrightarrow>
      calculate_level count max_count =
        Inr (if count = 0 then 0
             else if rat_of_int count / rat_of_int max_count \<le> 1 / 4 then 1
             else if rat_of_int count / rat_of_int max_count \<le> 1 / 2 then 2
             else if rat_of_int count / rat_of_int max_count \<le> 3 / 4 then 3
             else 4))
   \<and> (0 \<le> count \<and> count \<le> count' \<and> 1 \<le> max_count
        \<and> rat_of_int count' / rat_of_int max_count < 2 ^ 1024 - 2 ^ 970 \<longrightarrow>
        (\<exists>l l'. calculate_level count max_count = Inr l
               \<and> calculate_level count' max_count = Inr l' \<and> l \<le> l'))
   \<and> map (\<lambda>c. calculate_level c 100) [0, 25, 26, 50, 51, 75, 76, 100]
       = map Inr [0, 1, 2, 2, 3, 3, 4, 4]"
proof (intro impI conjI)
  assume "0 \<le> count \<and> 1 \<le> max_count \<and> max_count \<le> 2 ^ 52
      \<and> rat_of_int count / rat_of_int max_count < 2 ^ 1024 - 2 ^ 970"
  then show "calculate_level count max_count =
        Inr (if count = 0 then 0
             else if rat_of_int count / rat_of_int max_count \<le> 1 / 4 then 1
             else if rat_of_int count / rat_of_int max_count \<le> 1 / 2 then 2
             else if rat_of_int count / rat_of_int max_count \<le> 3 / 4 then 3
             else 4)"
    by (intro calculate_level_in_range) simp_all
next
  assume "0 \<le> count \<and> count \<le> count' \<and> 1 \<le> max_count
        \<and> rat_of_int count' / rat_of_int max_count < 2 ^ 1024 - 2 ^ 970"
  then show "\<exists>l l'. calculate_level count max_count = Inr l
               \<and> calculate_level count' max_count = Inr l' \<and> l \<le> l'"
    by (intro calculate_level_mono) simp_all
next
  show "map (\<lambda>c. calculate_level c 100) [0, 25, 26, 50, 51, 75, 76, 100]
         = map Inr [0, 1, 2, 2, 3, 3, 4, 4]"
    by (simp add: calculate_level_in_range)
qed

theorem calculate_level_thresholds_in_range_witness:
  "(0::int) \<le> 3 \<and> (1::int) \<le> 12 \<and> (12::int) \<le> 2 ^ 52
   \<and> rat_of_int 3 / rat_of_int 12 < 2 ^ 1024 - 2 ^ 970
   \<and> calculate_level 3 12 = Inr 1
   \<and> (3::int) \<le> 4 \<and> rat_of_int 4 / rat_of_int 12 < 2 ^ 1024 - 2 ^ 970
   \<and> (\<exists>l l'. calculate_level 3 12 = Inr l \<and> calculate_level 4 12 = Inr l' \<and> l \<le> l')"
proof -
  have h: "(0::int) \<le> 3 \<and> (1::int) \<le> 12 \<and> (12::int) \<le> 2 ^ 52
     \<and> rat_of_int 3 / rat_of_int 12 < 2 ^ 1024 - 2 ^ 970"
    by simp
  have k: "(0::int) \<le> 3 \<and> (3::int) \<le> 4 \<and> (1::int) \<le> 12
     \<and> rat_of_int 4 / rat_of_int 12 < 2 ^ 1024 - 2 ^ 970"
    by simp
  note t = calculate_level_thresholds_in_range [where count = 3 and max_count = 12 and count' = 4]
  from t h have "calculate_level 3 12 = Inr 1"
    by simp
  moreover from t k
  have "\<exists>l l'. calculate_level 3 12 = Inr l \<and> calculate_level 4 12 = Inr l' \<and> l \<le> l'"
    by blast
  ultimately show ?thesis
    using h k by simp
qed

text \<open>
  Without the bounds the claim fails in both ways.  The count \<open>10^400\<close> with
  \<open>max_count = 1\<close> makes the division raise \<^verbatim>\<open>OverflowError\<close>, so no level is returned.  The
  count \<open>3 \<cdot> 2^50 + 1\<close> with \<open>max_count = 2^52 + 1\<close> has an exact quotient above 0.75, by
  less than half the spacing of the floats there, and the float quotient is 0.75: the level
  is 3 where the claim says 4.
\<close>

lemma calculate_level_overflow:
  assumes "0 < max_count" and "2 ^ 1024 \<le> rat_of_int count / rat_of_int max_count"
  shows "calculate_level count max_count = Inl OverflowError"
proof -
  have "(0::rat) < 2 ^ 1024"
    by simp
  then have "0 < rat_of_int count / rat_of_int max_count"
    using assms(2) by (rule less_le_trans)
  with assms(1) have c: "0 < count"
    by (simp add: zero_less_divide_iff)
  from c assms have "float_of_quotient count max_count = Inl OverflowError"
    by (rule float_of_quotient_overflow)
  then show ?thesis
    using c by (simp add: calculate_level_def py_truediv_pos [OF c assms(1)])
qed

lemma calculate_level_rounded_down:
  "calculate_level (3 * 2 ^ 50 + 1) (2 ^ 52 + 1) = Inr 3"
proof -
  define a :: int where "a = 3 * 2 ^ 50 + 1"
  define b :: int where "b = 2 ^ 52 + 1"
  define x where "x = rat_of_int a / rat_of_int b"
  have a: "0 < a" and b: "0 < b"
    by (simp_all add: a_def b_def)
  have xv: "x = 3377699720527873 / 4503599627370497"
    by (simp add: x_def a_def b_def)
  have p53: "(2::rat) powi (- 53) = 1 / 2 ^ 53"
    by (simp add: power_int_minus_divide)
  have "x < 2 powi 0"
    by (simp add: xv)
  then have "exponent2 a b < 0"
    unfolding x_def by (rule exponent2_less [OF a b])
  moreover have "(2::rat) powi (- 1) \<le> x"
    by (simp add: xv)
  then have "- 1 \<le> exponent2 a b"
    unfolding x_def by (rule exponent2_ge [OF a b])
  ultimately have q: "max (exponent2 a b - 52) (- 1074) = - 53"
    by simp
  have "x < 2 ^ 1024 - 2 ^ 970"
    by (simp add: xv)
  then have fq: "float_of_quotient a b = Inr (round_to (- 53) x)"
    using float_of_quotient_no_overflow [OF a b] by (simp add: x_def q)
  have "x < rat_of_int (3 * 2 ^ 51) * 2 powi (- 53) + 2 powi (- 53) / 2"
    by (simp add: xv p53)
  then have "round_to (- 53) x \<le> rat_of_int (3 * 2 ^ 51) * 2 powi (- 53)"
    by (rule round_to_below_half)
  then have le: "round_to (- 53) x \<le> 3 / 4"
    by (simp add: p53)
  have "x < 1" "1 / 2 + 1 / 2 ^ 54 < x"
    by (simp_all add: xv)
  then have "\<exists>v. float_of_quotient a b = Inr v \<and> 1 / 2 < v"
    unfolding x_def by (rule float_gt_margin [OF a b])
  with fq have gt: "1 / 2 < round_to (- 53) x"
    by simp
  from fq have "py_truediv (3 * 2 ^ 50 + 1) (2 ^ 52 + 1) = Inr (round_to (- 53) x)"
    unfolding a_def [symmetric] b_def [symmetric] by (simp only: py_truediv_pos [OF a b])
  moreover have "\<not> round_to (- 53) x \<le> 1 / 4" "\<not> round_to (- 53) x \<le> 1 / 2"
    using gt by simp_all
  ultimately show ?thesis
    using le by (simp add: calculate_level_def)
qed

theorem calculate_level_counterexample:
  "calculate_level (10 ^ 400) 1 = Inl OverflowError
   \<and> calculate_level (3 * 2 ^ 50 + 1) (2 ^ 52 + 1) = Inr 3
   \<and> \<not> rat_of_int (3 * 2 ^ 50 + 1) / rat_of_int (2 ^ 52 + 1) \<le> 3 / 4"
proof (intro conjI)
  show "calculate_level (10 ^ 400) 1 = Inl OverflowError"
    by (rule calculate_level_overflow) simp_all
  show "calculate_level (3 * 2 ^ 50 + 1) (2 ^ 52 + 1) = Inr 3"
    by (rule calculate_level_rounded_down)
  show "\<not> rat_of_int (3 * 2 ^ 50 + 1) / rat_of_int (2 ^ 52 + 1) \<le> 3 / 4"
    by simp
qed

section \<open>Aggregation of a day and conversion to heatmap entries\<close>

lemma find_filter_neq: "\<not> P x \<Longrightarrow> find P (filter (\<lambda>y. y \<noteq> x) xs) = find P xs"
  by (induction xs) auto

lemma find_first_seen: "find P (first_seen xs) = find P xs"
  by (induction xs rule: first_seen.induct) (auto simp: find_filter_neq)

lemma set_first_seen: "set (first_seen xs) = set xs"
  by (induction xs rule: first_seen.induct) auto

lemma incr_keys:
  "map fst (incr k d) = (if k \<in> set (map fst d) then map fst d else map fst d @ [k])"
  by (simp add: incr_def update_keys)

lemma count_keys:
  "map fst (foldl (\<lambda>pc l. incr l pc) d ls) =
     map fst d @ first_seen (filter (\<lambda>l. l \<notin> set (map fst d)) ls)"
proof (induction ls arbitrary: d)
  case Nil
  then show ?case by simp
next
  case (Cons l ls)
  have eq: "filter (\<lambda>x. x \<noteq> l \<and> x \<notin> fst ` set d) ls = filter (\<lambda>x. x \<notin> fst ` set d \<and> x \<noteq> l) ls"
    by (rule filter_cong) auto
  show ?case
    by (simp add: Cons.IH incr_keys eq)
qed

lemma dict_get_incr:
  "dict_get (incr k d) k' 0 = dict_get d k' 0 + (if k' = k then 1 else 0)"
  by (simp add: incr_def dict_get_def update_conv')

lemma count_values:
  "dict_get (foldl (\<lambda>pc l. incr l pc) d ls) k 0 = dict_get d k 0 + int (count_list ls k)"
  by (induction ls arbitrary: d) (auto simp: dict_get_incr)

lemma sum_update:
  "sum_list (map snd (AList.update k (dict_get d k 0 + 1) d)) = sum_list (map snd d) + (1::int)"
  by (induction d) (auto simp: dict_get_def)

lemma count_sum:
  "sum_list (map snd (foldl (\<lambda>pc l. incr l pc) d ls)) = sum_list (map snd d) + int (length ls)"
  by (induction ls arbitrary: d) (auto simp: incr_def sum_update)

lemma find_skip_second: "(\<not> P a \<Longrightarrow> \<not> P b) \<Longrightarrow> find P (a # b # xs) = find P (a # xs)"
  by auto

lemma max_from_find:
  "find (\<lambda>x. \<forall>k'\<in>set (best # ks). key k' \<le> key x) (best # ks) = Some (max_from key best ks)"
proof (induction ks arbitrary: best)
  case Nil
  then show ?case by simp
next
  case (Cons k ks)
  show ?case
  proof (cases "key k > key best")
    case True
    have eqP: "(\<lambda>x. \<forall>k'\<in>set (best # k # ks). key k' \<le> key x) = (\<lambda>x. \<forall>k'\<in>set (k # ks). key k' \<le> key x)"
      using True by (intro ext) force
    have nb: "\<not> (\<forall>k'\<in>set (k # ks). key k' \<le> key best)"
      using True by auto
    have "find (\<lambda>x. \<forall>k'\<in>set (best # k # ks). key k' \<le> key x) (best # k # ks)
          = find (\<lambda>x. \<forall>k'\<in>set (k # ks). key k' \<le> key x) (best # k # ks)"
      by (simp only: eqP)
    also have "\<dots> = find (\<lambda>x. \<forall>k'\<in>set (k # ks). key k' \<le> key x) (k # ks)"
      using nb by (simp only: find.simps if_False)
    also have "\<dots> = Some (max_from key k ks)"
      by (rule Cons.IH)
    finally show ?thesis
      using True by simp
  next
    case False
    have eqP: "(\<lambda>x. \<forall>k'\<in>set (best # k # ks). key k' \<le> key x) = (\<lambda>x. \<forall>k'\<in>set (best # ks). key k' \<le> key x)"
      using False by (intro ext) force
    let ?P = "\<lambda>x. \<forall>k'\<in>set (best # ks). key k' \<le> key x"
    have nk: "\<not> ?P best \<Longrightarrow> \<not> ?P k"
      using False by force
    have "find (\<lambda>x. \<forall>k'\<in>set (best # k # ks). key k' \<le> key x) (best # k # ks)
          = find ?P (best # k # ks)"
      by (simp only: eqP)
    also have "\<dots> = find ?P (best # ks)"
      using nk by (rule find_skip_second)
    also have "\<dots> = Some (max_from key best ks)"
      by (rule Cons.IH)
    finally show ?thesis
      using False by simp
  qed
qed

lemma count_projects_labels:
  "count_projects commits = foldl (\<lambda>pc l. incr l pc) [] (labels_of commits)"
  by (simp add: count_projects_def labels_of_def foldl_map)

lemma summarize_day_empty: "summarize_day [] = Inl ValueError"
  by (simp add: summarize_day_def count_projects_def py_max_key_def)

lemma summarize_day_nonempty:
  assumes "commits \<noteq> []"
  shows "\<exists>p. summarize_day commits = Inr \<lparr>di_project = p, di_count = int (length commits)\<rparr>
     \<and> find (\<lambda>l. \<forall>l'\<in>set (labels_of commits). count_list (labels_of commits) l' \<le> count_list (labels_of commits) l)
          (labels_of commits) = Some p"
proof -
  let ?ls = "labels_of commits"
  let ?d = "count_projects commits"
  have keys: "map fst ?d = first_seen ?ls"
    using count_keys [of "[]" ?ls] by (simp add: count_projects_labels)
  have vals: "\<And>k. dict_get ?d k 0 = int (count_list ?ls k)"
    using count_values [of "[]" ?ls] by (simp add: count_projects_labels dict_get_def)
  have total: "sum_list (map snd ?d) = int (length commits)"
    using count_sum [of "[]" ?ls] by (simp add: count_projects_labels labels_of_def)
  from assms obtain l ls where ls: "?ls = l # ls"
    by (cases commits) (auto simp: labels_of_def)
  then obtain ks where fs: "first_seen ?ls = l # ks"
    by simp
  let ?p = "max_from (\<lambda>k. dict_get ?d k 0) l ks"
  have mk: "py_max_key ?d = Inr ?p"
    by (simp add: py_max_key_def keys fs)
  have "find (\<lambda>x. \<forall>k'\<in>set (l # ks). dict_get ?d k' 0 \<le> dict_get ?d x 0) (l # ks) = Some ?p"
    by (rule max_from_find)
  then have "find (\<lambda>x. \<forall>k'\<in>set ?ls. count_list ?ls k' \<le> count_list ?ls x) (first_seen ?ls) = Some ?p"
    using set_first_seen [of ?ls] by (simp add: vals fs [symmetric])
  then have "find (\<lambda>x. \<forall>k'\<in>set ?ls. count_list ?ls k' \<le> count_list ?ls x) ?ls = Some ?p"
    by (simp only: find_first_seen)
  moreover have "summarize_day commits = Inr \<lparr>di_project = ?p, di_count = int (length commits)\<rparr>"
    by (simp add: summarize_day_def Let_def mk total)
  ultimately show ?thesis
    by blast
qed

lemma update_new_key: "k \<notin> fst ` set al \<Longrightarrow> AList.update k v al = al @ [(k, v)]"
  by (induction al) auto

lemma summarize_Inr:
  assumes "summarize dc acc = Inr ds" and "distinct (map fst acc @ map fst dc)"
  shows "\<exists>new. ds = acc @ new \<and> list_all2 day_rel dc new"
  using assms
proof (induction dc arbitrary: acc)
  case Nil
  then show ?case by simp
next
  case (Cons x dc)
  obtain date commits where x: "x = (date, commits)"
    by (cases x)
  from Cons.prems(1) obtain info where
    info: "summarize_day commits = Inr info"
    and rest: "summarize dc (AList.update date info acc) = Inr ds"
    by (auto simp: x split: sum.splits)
  have new: "AList.update date info acc = acc @ [(date, info)]"
    using Cons.prems(2) by (intro update_new_key) (auto simp: x)
  have "distinct (map fst (acc @ [(date, info)]) @ map fst dc)"
    using Cons.prems(2) by (auto simp: x)
  with Cons.IH [of "acc @ [(date, info)]"] rest new
  obtain new' where "ds = (acc @ [(date, info)]) @ new'" and "list_all2 day_rel dc new'"
    by auto
  then have "ds = acc @ ((date, info) # new') \<and> list_all2 day_rel (x # dc) ((date, info) # new')"
    using info by (simp add: x day_rel_def)
  then show ?case
    by blast
qed

lemma summarize_total:
  assumes "\<forall>x\<in>set dc. snd x \<noteq> []"
  shows "\<exists>ds. summarize dc acc = Inr ds"
  using assms
proof (induction dc arbitrary: acc)
  case Nil
  then show ?case by simp
next
  case (Cons x dc)
  obtain date commits where x: "x = (date, commits)"
    by (cases x)
  with Cons.prems have "commits \<noteq> []"
    by simp
  from summarize_day_nonempty [OF this] obtain info where "summarize_day commits = Inr info"
    by blast
  moreover have "\<exists>ds. summarize dc (AList.update date info acc) = Inr ds"
    using Cons.prems by (intro Cons.IH) simp
  ultimately show ?case
    by (simp add: x)
qed

lemma list_all2_insort_key:
  assumes "list_all2 R xs ys" and "R x y" and "\<And>a b. R a b \<Longrightarrow> f a = g b"
  shows "list_all2 R (insort_key f x xs) (insort_key g y ys)"
  using assms(1)
proof (induction rule: list_all2_induct)
  case Nil
  then show ?case using assms(2) by simp
next
  case (Cons a as b bs)
  have "f a = g b" "f x = g y"
    using Cons.hyps(1) assms(2,3) by auto
  then show ?case
    using Cons assms(2) by simp
qed

lemma list_all2_sort_key:
  assumes "list_all2 R xs ys" and "\<And>a b. R a b \<Longrightarrow> f a = g b"
  shows "list_all2 R (sort_key f xs) (sort_key g ys)"
  using assms(1)
proof (induction rule: list_all2_induct)
  case Nil
  then show ?case by simp
next
  case (Cons a as b bs)
  then show ?case
    using assms(2) by (simp add: list_all2_insort_key)
qed

lemma build_heatmap_Inr:
  "build_heatmap m ds = Inr out \<Longrightarrow> list_all2 (entry_rel m) ds out"
proof (induction ds arbitrary: out)
  case Nil
  then show ?case by simp
next
  case (Cons x ds)
  obtain date info where x: "x = (date, info)"
    by (cases x)
  from Cons.prems obtain lvl rest where
    "calculate_level (di_count info) m = Inr lvl" "build_heatmap m ds = Inr rest"
    "out = \<lparr>he_date = strftime_ymd date, he_count = di_count info,
            he_project = di_project info, he_level = lvl\<rparr> # rest"
    by (auto simp: x split: sum.splits)
  then show ?case
    using Cons.IH [of rest] by (simp add: x entry_rel_def)
qed

lemma build_heatmap_total:
  "(\<And>d. d \<in> set ds \<Longrightarrow> 0 \<le> di_count (snd d) \<and> di_count (snd d) \<le> m)
     \<Longrightarrow> \<exists>out. build_heatmap m ds = Inr out"
proof (induction ds)
  case Nil
  then show ?case by simp
next
  case (Cons x ds)
  obtain date info where x: "x = (date, info)"
    by (cases x)
  from Cons.prems [of x] have "0 \<le> di_count info" "di_count info \<le> m"
    by (simp_all add: x)
  from calculate_level_total [OF this]
  obtain l where "calculate_level (di_count info) m = Inr l"
    by blast
  moreover from Cons obtain out where "build_heatmap m ds = Inr out"
    by auto
  ultimately show ?case
    by (simp add: x)
qed

lemma summarize_day_Inr:
  assumes "summarize_day commits = Inr info"
  shows "commits \<noteq> [] \<and> di_count info = int (length commits)
     \<and> find (\<lambda>l. \<forall>l'\<in>set (labels_of commits). count_list (labels_of commits) l' \<le> count_list (labels_of commits) l)
          (labels_of commits) = Some (di_project info)"
proof -
  have ne: "commits \<noteq> []"
    using assms by (auto simp: summarize_day_empty)
  from summarize_day_nonempty [OF ne] assms show ?thesis
    using ne by auto
qed

lemma convert_to_heatmap_Inr:
  assumes "convert_to_heatmap dc = Inr out" and "distinct (map fst dc)"
  shows "list_all2 core_rel (sort_key fst dc) out"
proof (cases "dc = []")
  case True
  with assms(1) show ?thesis
    by (simp add: convert_to_heatmap_def)
next
  case False
  with assms(1) obtain ds m where
    ds: "summarize dc [] = Inr ds" and out: "build_heatmap m (sort_key fst ds) = Inr out"
    by (auto simp: convert_to_heatmap_def Let_def split: sum.splits)
  from summarize_Inr [OF ds] assms(2) have rel: "list_all2 day_rel dc ds"
    by simp
  have "list_all2 day_rel (sort_key fst dc) (sort_key fst ds)"
    using rel by (rule list_all2_sort_key) (simp add: day_rel_def)
  moreover have "list_all2 (entry_rel m) (sort_key fst ds) out"
    using out by (rule build_heatmap_Inr)
  ultimately have "(list_all2 day_rel OO list_all2 (entry_rel m)) (sort_key fst dc) out"
    by (rule relcomppI)
  then have "list_all2 (day_rel OO entry_rel m) (sort_key fst dc) out"
    by (simp only: list.rel_compp)
  then show ?thesis
    by (rule list_all2_mono) (auto simp: day_rel_def entry_rel_def core_rel_def)
qed

lemma convert_to_heatmap_total:
  assumes "distinct (map fst dc)" and "\<forall>x\<in>set dc. snd x \<noteq> []"
  shows "\<exists>out. convert_to_heatmap dc = Inr out"
proof (cases "dc = []")
  case True
  then show ?thesis
    by (simp add: convert_to_heatmap_def)
next
  case False
  from summarize_total [OF assms(2)] obtain ds where ds: "summarize dc [] = Inr ds"
    by blast
  from summarize_Inr [OF ds] assms(1) have rel: "list_all2 day_rel dc ds"
    by simp
  then have ne: "ds \<noteq> []"
    using False by auto
  have pos: "1 \<le> di_count (snd y)" if "y \<in> set ds" for y
  proof -
    from that obtain i where i: "i < length ds" "ds ! i = y"
      by (auto simp: in_set_conv_nth)
    with rel have "day_rel (dc ! i) y"
      by (auto simp: list_all2_conv_all_nth)
    then have "summarize_day (snd (dc ! i)) = Inr (snd y)"
      by (simp add: day_rel_def)
    from summarize_day_Inr [OF this] show ?thesis
      by (cases "snd (dc ! i)") auto
  qed
  let ?m = "Max (set (map (\<lambda>d. di_count (snd d)) ds))"
  have "0 \<le> di_count (snd y) \<and> di_count (snd y) \<le> ?m"
    if "y \<in> set (sort_key fst ds)" for y
  proof -
    from that have y: "y \<in> set ds"
      by simp
    then have "di_count (snd y) \<le> ?m"
      by (intro Max_ge) auto
    with pos [OF y] show ?thesis
      by simp
  qed
  from build_heatmap_total [of "sort_key fst ds" ?m, OF this] obtain out where
    "build_heatmap ?m (sort_key fst ds) = Inr out"
    by blast
  then show ?thesis
    using False ds ne by (simp add: convert_to_heatmap_def Let_def)
qed

lemma sum_label_counts:
  "(\<Sum>l\<in>set ls. int (count_list ls l)) = int (length ls)"
proof -
  have "(\<Sum>l\<in>set ls. int (count_list ls l)) = int (\<Sum>l\<in>set ls. count_list ls l)"
    by simp
  also have "(\<Sum>l\<in>set ls. count_list ls l) = length ls"
    by (rule sum_count_set) simp_all
  finally show ?thesis .
qed

lemma example_day:
  "convert_to_heatmap [((2025, 3, 14), day_A3_B5_A1)]
     = Inr [\<lparr>he_date = ''2025-03-14'', he_count = 9, he_project = ''B'', he_level = 4\<rparr>]"
  by code_simp

text \<open>
  Claim C1.  For every date of a person's commit bucket, \<open>convert_to_heatmap\<close> groups the
  records of that date by normalized project label and emits one entry: its project is the
  label with the highest count, the first-encountered one among equals, and its count is the
  sum of the counts of all labels of that date.  The entries stand in the order of the dates.
  A day with the records A, A, A, B, B, B, B, B, A gives the project B and the count 9.
\<close>

theorem convert_to_heatmap_representative_project:
  "(distinct (map fst daily_commits) \<and> (\<forall>x\<in>set daily_commits. snd x \<noteq> []) \<longrightarrow>
      (\<exists>heatmap_data.
         convert_to_heatmap daily_commits = Inr heatmap_data
         \<and> list_all2
             (\<lambda>(date, commits) entry.
                 he_date entry = strftime_ymd date
                 \<and> spec_representative (labels_of commits) = Some (he_project entry)
                 \<and> he_count entry
                     = (\<Sum>l\<in>set (labels_of commits). int (count_list (labels_of commits) l)))
             (sort_key fst daily_commits) heatmap_data))
   \<and> convert_to_heatmap [((2025, 3, 14), day_A3_B5_A1)]
       = Inr [\<lparr>he_date = ''2025-03-14'', he_count = 9, he_project = ''B'', he_level = 4\<rparr>]"
proof (intro conjI impI)
  assume a: "distinct (map fst daily_commits) \<and> (\<forall>x\<in>set daily_commits. snd x \<noteq> [])"
  then obtain heatmap_data where out: "convert_to_heatmap daily_commits = Inr heatmap_data"
    using convert_to_heatmap_total by blast
  from convert_to_heatmap_Inr [OF out] a
  have "list_all2 core_rel (sort_key fst daily_commits) heatmap_data"
    by simp
  then have "list_all2
             (\<lambda>(date, commits) entry.
                 he_date entry = strftime_ymd date
                 \<and> spec_representative (labels_of commits) = Some (he_project entry)
                 \<and> he_count entry
                     = (\<Sum>l\<in>set (labels_of commits). int (count_list (labels_of commits) l)))
             (sort_key fst daily_commits) heatmap_data"
  proof (rule list_all2_mono)
    fix x e
    assume "core_rel x e"
    then have d: "he_date e = strftime_ymd (fst x)"
      and s: "summarize_day (snd x) = Inr \<lparr>di_project = he_project e, di_count = he_count e\<rparr>"
      by (simp_all add: core_rel_def)
    from summarize_day_Inr [OF s]
    have "he_count e = int (length (snd x))"
      and "spec_representative (labels_of (snd x)) = Some (he_project e)"
      by (simp_all add: spec_representative_def)
    moreover have "length (labels_of (snd x)) = length (snd x)"
      by (simp add: labels_of_def)
    ultimately show "(case x of (date, commits) \<Rightarrow> \<lambda>entry.
                 he_date entry = strftime_ymd date
                 \<and> spec_representative (labels_of commits) = Some (he_project entry)
                 \<and> he_count entry
                     = (\<Sum>l\<in>set (labels_of commits). int (count_list (labels_of commits) l))) e"
      using d by (cases x) (simp add: sum_label_counts)
  qed
  with out show "\<exists>heatmap_data.
         convert_to_heatmap daily_commits = Inr heatmap_data
         \<and> list_all2
             (\<lambda>(date, commits) entry.
                 he_date entry = strftime_ymd date
                 \<and> spec_representative (labels_of commits) = Some (he_project entry)
                 \<and> he_count entry
                     = (\<Sum>l\<in>set (labels_of commits). int (count_list (labels_of commits) l)))
             (sort_key fst daily_commits) heatmap_data"
    by blast
next
  show "convert_to_heatmap [((2025, 3, 14), day_A3_B5_A1)]
       = Inr [\<lparr>he_date = ''2025-03-14'', he_count = 9, he_project = ''B'', he_level = 4\<rparr>]"
    by (rule example_day)
qed

theorem convert_to_heatmap_representative_project_witness:
  "distinct (map fst two_day_bucket) \<and> [] \<notin> snd ` set two_day_bucket
   \<and> (\<exists>heatmap_data.
         convert_to_heatmap two_day_bucket = Inr heatmap_data
         \<and> list_all2
             (\<lambda>(date, commits) entry.
                 he_date entry = strftime_ymd date
                 \<and> spec_representative (labels_of commits) = Some (he_project entry)
                 \<and> he_count entry
                     = (\<Sum>l\<in>set (labels_of commits). int (count_list (labels_of commits) l)))
             (sort_key fst two_day_bucket) heatmap_data)"
proof -
  have h: "distinct (map fst two_day_bucket) \<and> (\<forall>x\<in>set two_day_bucket. snd x \<noteq> [])"
    by (simp add: two_day_bucket_def day_A3_B5_A1_def)
  then have "[] \<notin> snd ` set two_day_bucket"
    by auto
  with h convert_to_heatmap_representative_project [of two_day_bucket] show ?thesis
    by blast
qed

section \<open>Calendar data\<close>

lemma add_entries_ok:
  assumes "map_of nd ''param'' = Some (Param p)"
    and "''param'' \<notin> he_date ` set hm"
    and "distinct (map he_date hm)"
    and "he_date ` set hm \<inter> fst ` set nd = {}"
  shows "\<exists>nd'. add_entries hm nd = Inr nd'
     \<and> map fst nd' = map fst nd @ map he_date hm
     \<and> map_of nd' ''param'' = Some (Param (p\<lparr>p_color_cell := p_color_cell p @ map cell_of hm\<rparr>))
     \<and> (\<forall>entry\<in>set hm. map_of nd' (he_date entry) = Some (Label (he_project entry)))
     \<and> (\<forall>k. k \<noteq> ''param'' \<and> k \<notin> he_date ` set hm \<longrightarrow> map_of nd' k = map_of nd k)"
  using assms
proof (induction hm arbitrary: nd p)
  case Nil
  then show ?case by simp
next
  case (Cons entry rest)
  let ?nd1 = "AList.update (he_date entry) (Label (he_project entry)) nd"
  let ?p' = "p\<lparr>p_color_cell := p_color_cell p @ [cell_of entry]\<rparr>"
  let ?nd2 = "AList.update ''param'' (Param ?p') ?nd1"
  have ne: "he_date entry \<noteq> ''param''"
    using Cons.prems(2) by auto
  have p1: "map_of ?nd1 ''param'' = Some (Param p)"
    using Cons.prems(1) ne by (simp add: update_conv')
  have step: "add_entries (entry # rest) nd = add_entries rest ?nd2"
    using p1 by (simp add: Let_def cell_of_def)
  have keys1: "map fst ?nd1 = map fst nd @ [he_date entry]"
    using Cons.prems(4) by (auto simp: update_keys)
  have pk: "''param'' \<in> fst ` set nd"
    using Cons.prems(1) by (metis map_of_eq_None_iff option.distinct(1))
  have keys2: "map fst ?nd2 = map fst nd @ [he_date entry]"
    using pk keys1 by (auto simp: update_keys)
  have a1: "map_of ?nd2 ''param'' = Some (Param ?p')"
    by (simp add: update_conv')
  have a2: "''param'' \<notin> he_date ` set rest"
    using Cons.prems(2) by auto
  have a3: "distinct (map he_date rest)"
    using Cons.prems(3) by simp
  have a4: "he_date ` set rest \<inter> fst ` set ?nd2 = {}"
  proof -
    have "fst ` set ?nd2 = set (map fst ?nd2)" by simp
    also have "\<dots> = fst ` set nd \<union> {he_date entry}"
      by (simp only: keys2) auto
    finally show ?thesis
      using Cons.prems(3,4) by auto
  qed
  from Cons.IH [OF a1 a2 a3 a4] obtain nd' where
    r: "add_entries rest ?nd2 = Inr nd'"
    and k: "map fst nd' = map fst ?nd2 @ map he_date rest"
    and pp: "map_of nd' ''param'' = Some (Param (?p'\<lparr>p_color_cell := p_color_cell ?p' @ map cell_of rest\<rparr>))"
    and ll: "\<forall>e\<in>set rest. map_of nd' (he_date e) = Some (Label (he_project e))"
    and oo: "\<forall>k. k \<noteq> ''param'' \<and> k \<notin> he_date ` set rest \<longrightarrow> map_of nd' k = map_of ?nd2 k"
    by blast
  have first: "map_of nd' (he_date entry) = Some (Label (he_project entry))"
  proof -
    have "he_date entry \<notin> he_date ` set rest"
      using Cons.prems(3) by auto
    with oo ne have "map_of nd' (he_date entry) = map_of ?nd2 (he_date entry)"
      by blast
    also have "\<dots> = Some (Label (he_project entry))"
      using ne by (simp add: update_conv')
    finally show ?thesis .
  qed
  have others: "\<forall>k. k \<noteq> ''param'' \<and> k \<notin> he_date ` set (entry # rest) \<longrightarrow> map_of nd' k = map_of nd k"
  proof (intro allI impI)
    fix k
    assume k: "k \<noteq> ''param'' \<and> k \<notin> he_date ` set (entry # rest)"
    then have "map_of nd' k = map_of ?nd2 k"
      using oo by auto
    also have "\<dots> = map_of nd k"
      using k by (simp add: update_conv')
    finally show "map_of nd' k = map_of nd k" .
  qed
  show ?case
    using step r k keys2 pp ll first others by simp
qed

lemma PROJECT_COLORS_distinct: "distinct (map fst PROJECT_COLORS)"
  by (simp add: PROJECT_COLORS_def)

lemma cell_of_color:
  "cc_date (cell_of entry) = he_date entry
   \<and> (\<forall>color. (he_project entry, color) \<in> set PROJECT_COLORS \<longrightarrow> cc_color (cell_of entry) = color)
   \<and> (he_project entry \<notin> fst ` set PROJECT_COLORS \<longrightarrow> cc_color (cell_of entry) = ''#6b7280'')"
proof (intro conjI allI impI)
  show "cc_date (cell_of entry) = he_date entry"
    by (simp add: cell_of_def)
next
  fix color
  assume "(he_project entry, color) \<in> set PROJECT_COLORS"
  then have "map_of PROJECT_COLORS (he_project entry) = Some color"
    using PROJECT_COLORS_distinct by (rule_tac map_of_is_SomeI)
  then show "cc_color (cell_of entry) = color"
    by (simp add: cell_of_def dict_get_def)
next
  assume "he_project entry \<notin> fst ` set PROJECT_COLORS"
  then have "map_of PROJECT_COLORS (he_project entry) = None"
    by (simp add: map_of_eq_None_iff)
  then show "cc_color (cell_of entry) = ''#6b7280''"
    by (simp add: cell_of_def dict_get_def DEFAULT_COLOR_def)
qed

text \<open>
  Claim C4.  For every list of heatmap entries (one entry per date, the dates being date
  strings and so never the key \<open>param\<close>) and every target year, \<open>generate_neatocal_data\<close>
  returns a structure whose \<open>param\<close> block holds exactly the year, the layout
  \<open>aligned-weekdays\<close>, the cell height \<open>1.5em\<close>, the start day 0, the highlight colour
  \<open>#fef9c3\<close> and a \<open>color_cell\<close> list with one pair of date and colour per entry, in list
  order; the colour is the colour table's value for the entry's project if the project is
  listed and \<open>#6b7280\<close> otherwise; and the top level has, besides \<open>param\<close>, one key per
  entry's date, which holds that entry's project label.
\<close>

theorem generate_neatocal_data_structure:
  "''param'' \<notin> he_date ` set heatmap_data \<and> distinct (map he_date heatmap_data) \<longrightarrow>
     (\<exists>neatocal_data color_cell.
        generate_neatocal_data heatmap_data year = Inr neatocal_data
        \<and> map_of neatocal_data ''param''
            = Some (Param \<lparr>p_year = year, p_layout = ''aligned-weekdays'',
                            p_cell_height = ''1.5em'', p_start_day = 0,
                            p_highlight_color = ''#fef9c3'', p_color_cell = color_cell\<rparr>)
        \<and> list_all2
            (\<lambda>entry cell.
                cc_date cell = he_date entry
                \<and> (\<forall>color. (he_project entry, color) \<in> set PROJECT_COLORS \<longrightarrow> cc_color cell = color)
                \<and> (he_project entry \<notin> fst ` set PROJECT_COLORS \<longrightarrow> cc_color cell = ''#6b7280''))
            heatmap_data color_cell
        \<and> map fst neatocal_data = ''param'' # map he_date heatmap_data
        \<and> (\<forall>entry\<in>set heatmap_data.
              map_of neatocal_data (he_date entry) = Some (Label (he_project entry))))"
proof
  assume a: "''param'' \<notin> he_date ` set heatmap_data \<and> distinct (map he_date heatmap_data)"
  let ?p = "\<lparr>p_year = year, p_layout = ''aligned-weekdays'', p_cell_height = ''1.5em'',
             p_start_day = 0, p_highlight_color = ''#fef9c3'', p_color_cell = []\<rparr>"
  have "map_of [(''param'', Param ?p)] ''param'' = Some (Param ?p)"
    by simp
  moreover have "he_date ` set heatmap_data \<inter> fst ` set [(''param'', Param ?p)] = {}"
    using a by auto
  ultimately obtain nd where
    g: "add_entries heatmap_data [(''param'', Param ?p)] = Inr nd"
    and k: "map fst nd = map fst [(''param'', Param ?p)] @ map he_date heatmap_data"
    and pp: "map_of nd ''param''
               = Some (Param (?p\<lparr>p_color_cell := p_color_cell ?p @ map cell_of heatmap_data\<rparr>))"
    and ll: "\<forall>entry\<in>set heatmap_data. map_of nd (he_date entry) = Some (Label (he_project entry))"
    using add_entries_ok [of "[(''param'', Param ?p)]" ?p heatmap_data] a by blast
  have cells: "list_all2
            (\<lambda>entry cell.
                cc_date cell = he_date entry
                \<and> (\<forall>color. (he_project entry, color) \<in> set PROJECT_COLORS \<longrightarrow> cc_color cell = color)
                \<and> (he_project entry \<notin> fst ` set PROJECT_COLORS \<longrightarrow> cc_color cell = ''#6b7280''))
            heatmap_data (map cell_of heatmap_data)"
    unfolding list_all2_map2 by (rule list_all2_refl) (rule cell_of_color)
  show "\<exists>neatocal_data color_cell.
        generate_neatocal_data heatmap_data year = Inr neatocal_data
        \<and> map_of neatocal_data ''param''
            = Some (Param \<lparr>p_year = year, p_layout = ''aligned-weekdays'',
                            p_cell_height = ''1.5em'', p_start_day = 0,
                            p_highlight_color = ''#fef9c3'', p_color_cell = color_cell\<rparr>)
        \<and> list_all2
            (\<lambda>entry cell.
                cc_date cell = he_date entry
                \<and> (\<forall>color. (he_project entry, color) \<in> set PROJECT_COLORS \<longrightarrow> cc_color cell = color)
                \<and> (he_project entry \<notin> fst ` set PROJECT_COLORS \<longrightarrow> cc_color cell = ''#6b7280''))
            heatmap_data color_cell
        \<and> map fst neatocal_data = ''param'' # map he_date heatmap_data
        \<and> (\<forall>entry\<in>set heatmap_data.
              map_of neatocal_data (he_date entry) = Some (Label (he_project entry)))"
    apply (rule exI [of _ nd])
    apply (rule exI [of _ "map cell_of heatmap_data"])
    using g k pp ll cells by (simp add: generate_neatocal_data_def)
qed

theorem generate_neatocal_data_witness:
  "''param'' \<notin> he_date ` set two_entries \<and> distinct (map he_date two_entries)
   \<and> (\<exists>neatocal_data color_cell.
        generate_neatocal_data two_entries 2025 = Inr neatocal_data
        \<and> map_of neatocal_data ''param''
            = Some (Param \<lparr>p_year = 2025, p_layout = ''aligned-weekdays'',
                            p_cell_height = ''1.5em'', p_start_day = 0,
                            p_highlight_color = ''#fef9c3'', p_color_cell = color_cell\<rparr>)
        \<and> list_all2
            (\<lambda>entry cell.
                cc_date cell = he_date entry
                \<and> (\<forall>color. (he_project entry, color) \<in> set PROJECT_COLORS \<longrightarrow> cc_color cell = color)
                \<and> (he_project entry \<notin> fst ` set PROJECT_COLORS \<longrightarrow> cc_color cell = ''#6b7280''))
            two_entries color_cell
        \<and> map fst neatocal_data = ''param'' # map he_date two_entries
        \<and> (\<forall>entry\<in>set two_entries.
              map_of neatocal_data (he_date entry) = Some (Label (he_project entry))))"
proof -
  have h: "''param'' \<notin> he_date ` set two_entries \<and> distinct (map he_date two_entries)"
    by (simp add: two_entries_def)
  with generate_neatocal_data_structure [of two_entries 2025] show ?thesis
    by blast
qed

lemma generate_neatocal_data_two_entries:
  "generate_neatocal_data two_entries 2025 =
     Inr [(''param'',
           Param \<lparr>p_year = 2025, p_layout = ''aligned-weekdays'', p_cell_height = ''1.5em'',
                   p_start_day = 0, p_highlight_color = ''#fef9c3'',
                   p_color_cell = [\<lparr>cc_date = ''2025-01-02'', cc_color = ''#ef4444''\<rparr>,
                                   \<lparr>cc_date = ''2025-03-14'', cc_color = ''#6b7280''\<rparr>]\<rparr>),
          (''2025-01-02'', Label ''topaz''), (''2025-03-14'', Label ''B'')]"
  by code_simp

section \<open>GitLab collector\<close>

text \<open>
  Claim C8.  In the primary path of the GitLab collector, if the exact username lookup
  returns no users and the search fallback returns no users either, the collector logs a
  warning and returns an empty bucket; nothing is raised and the legacy scan is not started.
\<close>

theorem collect_gitlab_commits_user_not_found:
  "groups_get api group_name = Inr gitlab_group
   \<and> group_projects api group_name = Inr projects
   \<and> users_list_username api username = Inr []
   \<and> users_list_search api username = Inr [] \<longrightarrow>
     collect_gitlab_commits lower_fn True api group_name username start_date end_date
       = ([], [LogUserNotFound username])
     \<and> LogFallback \<notin> set (snd (collect_gitlab_commits lower_fn True api group_name username start_date end_date))"
  by (simp add: collect_gitlab_commits_def gitlab_primary_def)

theorem collect_gitlab_commits_user_not_found_witness:
  "groups_get api_no_user ''nextlab-cowork'' = Inr ''nextlab-cowork''
   \<and> group_projects api_no_user ''nextlab-cowork'' = Inr [\<lparr>gp_id = 7, gp_name = ''vos''\<rparr>]
   \<and> users_list_username api_no_user ''sieging'' = Inr []
   \<and> users_list_search api_no_user ''sieging'' = Inr []
   \<and> collect_gitlab_commits ascii_lower True api_no_user ''nextlab-cowork'' ''sieging'' (2025, 1, 1) (2025, 12, 31)
       = ([], [LogUserNotFound ''sieging''])"
proof -
  have h: "groups_get api_no_user ''nextlab-cowork'' = Inr ''nextlab-cowork''
   \<and> group_projects api_no_user ''nextlab-cowork'' = Inr [\<lparr>gp_id = 7, gp_name = ''vos''\<rparr>]
   \<and> users_list_username api_no_user ''sieging'' = Inr []
   \<and> users_list_search api_no_user ''sieging'' = Inr []"
    by (simp add: api_no_user_def)
  with collect_gitlab_commits_user_not_found
         [where api = api_no_user and group_name = "''nextlab-cowork''"
            and gitlab_group = "''nextlab-cowork''"
            and projects = "[\<lparr>gp_id = 7, gp_name = ''vos''\<rparr>]"
            and username = "''sieging''" and lower_fn = ascii_lower
            and start_date = "(2025, 1, 1)" and end_date = "(2025, 12, 31)"]
  show ?thesis
    by blast
qed

lemma legacy_runs_when_lookup_raises:
  "users_list_username api username = Inl e
   \<Longrightarrow> groups_get api group_name = Inr g \<Longrightarrow> group_projects api group_name = Inr projects
   \<Longrightarrow> LogFallback \<in> set (snd (collect_gitlab_commits lower_fn True api group_name username start_date end_date))"
  by (simp add: collect_gitlab_commits_def gitlab_primary_def split: prod.splits)

text \<open>
  Claim C9.  In the author test of the legacy scan the exact-equality disjunct is redundant:
  for all strings \<open>username\<close>, \<open>author_name\<close> and \<open>author_email\<close> the test is equivalent
  to its two case-insensitive containment disjuncts alone.
\<close>

theorem author_match_equality_redundant:
  "author_match lower_fn username author_name author_email
     \<longleftrightarrow> author_match_contains lower_fn username author_name author_email"
  by (auto simp: author_match_def author_match_contains_def)

lemma author_match_examples:
  "author_match ascii_lower ''Sieging'' ''sieging kim'' ''x@y.z''"
  "\<not> author_match ascii_lower ''sieging'' ''Kim'' ''kim@y.z''"
  "author_match ascii_lower ''kim'' ''K'' ''KIM@y.z''"
  by code_simp+

section \<open>Order of the entries and people without commits\<close>

lemma map_insort_key: "map f (insort_key f x xs) = insort (f x) (map f xs)"
  by (induction xs) auto

lemma map_sort_key: "map f (sort_key f xs) = sort (map f xs)"
  by (induction xs) (auto simp: map_insort_key)

lemma sorted_keys:
  assumes "distinct (map fst dc)"
  shows "sorted_wrt (<) (map fst (sort_key fst dc))"
    and "set (map fst (sort_key fst dc)) = fst ` set dc"
    and "length (sort_key fst dc) = length dc"
  using assms by (simp_all add: map_sort_key strict_sorted_iff)

lemma core_rel_positive:
  assumes "core_rel x e"
  shows "0 < he_count e \<and> he_date e = strftime_ymd (fst x)"
proof -
  from assms have s: "summarize_day (snd x) = Inr \<lparr>di_project = he_project e, di_count = he_count e\<rparr>"
    and d: "he_date e = strftime_ymd (fst x)"
    by (simp_all add: core_rel_def)
  from summarize_day_Inr [OF s] have "snd x \<noteq> []" "he_count e = int (length (snd x))"
    by simp_all
  then show ?thesis
    using d by (cases "snd x") auto
qed

lemma convert_to_heatmap_dates:
  assumes "convert_to_heatmap dc = Inr out" and "distinct (map fst dc)"
  shows "map he_date out = map strftime_ymd (map fst (sort_key fst dc))"
    and "\<forall>e\<in>set out. 0 < he_count e"
    and "length out = length dc"
proof -
  have rel: "list_all2 core_rel (sort_key fst dc) out"
    using assms by (rule convert_to_heatmap_Inr)
  then have rel': "list_all2 (\<lambda>x e. 0 < he_count e \<and> he_date e = strftime_ymd (fst x)) (sort_key fst dc) out"
    by (rule list_all2_mono) (rule core_rel_positive)
  have len: "length (sort_key fst dc) = length out"
    using rel by (rule list_all2_lengthD)
  show "map he_date out = map strftime_ymd (map fst (sort_key fst dc))"
    using rel' len by (auto simp: list_all2_conv_all_nth intro!: nth_equalityI)
  show "\<forall>e\<in>set out. 0 < he_count e"
    using rel' by (auto simp: list_all2_conv_all_nth in_set_conv_nth)
  show "length out = length dc"
    using len by simp
qed

lemma process_user_no_commits:
  assumes "collect_all w user = Inr ([], gitlab_console)"
  shows "process_user w user st
           = (st\<lparr>console := console st @ gitlab_console @ [LogNoCommitData (u_name user)]\<rparr>, None)"
  using assms by (simp add: process_user_def Let_def)

text \<open>
  Claim C3.  An empty bucket yields an empty list of heatmap entries.  A non-empty bucket
  yields a list in ascending order of the dates with exactly one entry per date key, and the
  count of every entry is positive.  In the orchestration a person whose merged bucket is
  empty produces no output file and no calendar, and the run goes on with the remaining
  people.
\<close>

theorem empty_bucket_no_entries_no_files:
  "convert_to_heatmap [] = Inr []
   \<and> (daily_commits \<noteq> [] \<and> distinct (map fst daily_commits)
        \<and> (\<forall>x\<in>set daily_commits. snd x \<noteq> []) \<longrightarrow>
       (\<exists>heatmap_data.
          convert_to_heatmap daily_commits = Inr heatmap_data
          \<and> map he_date heatmap_data = map strftime_ymd (map fst (sort_key fst daily_commits))
          \<and> sorted_wrt (<) (map fst (sort_key fst daily_commits))
          \<and> set (map fst (sort_key fst daily_commits)) = fst ` set daily_commits
          \<and> length heatmap_data = length daily_commits
          \<and> (\<forall>entry\<in>set heatmap_data. 0 < he_count entry)))
   \<and> (collect_all w user = Inr ([], gitlab_console) \<longrightarrow>
       (\<exists>st'. process_user w user st = (st', None)
          \<and> files st' = files st
          \<and> user_calendars st' = user_calendars st
          \<and> console st' = console st @ gitlab_console @ [LogNoCommitData (u_name user)]
          \<and> main_users w (user # users) st = main_users w users st'))"
proof (intro conjI impI)
  show "convert_to_heatmap [] = Inr []"
    by (simp add: convert_to_heatmap_def)
next
  assume a: "daily_commits \<noteq> [] \<and> distinct (map fst daily_commits)
        \<and> (\<forall>x\<in>set daily_commits. snd x \<noteq> [])"
  then obtain heatmap_data where out: "convert_to_heatmap daily_commits = Inr heatmap_data"
    using convert_to_heatmap_total by blast
  have d: "distinct (map fst daily_commits)"
    using a by simp
  show "\<exists>heatmap_data.
          convert_to_heatmap daily_commits = Inr heatmap_data
          \<and> map he_date heatmap_data = map strftime_ymd (map fst (sort_key fst daily_commits))
          \<and> sorted_wrt (<) (map fst (sort_key fst daily_commits))
          \<and> set (map fst (sort_key fst daily_commits)) = fst ` set daily_commits
          \<and> length heatmap_data = length daily_commits
          \<and> (\<forall>entry\<in>set heatmap_data. 0 < he_count entry)"
    using out convert_to_heatmap_dates [OF out d] sorted_keys [OF d] by blast
next
  assume c: "collect_all w user = Inr ([], gitlab_console)"
  let ?st' = "st\<lparr>console := console st @ gitlab_console @ [LogNoCommitData (u_name user)]\<rparr>"
  have p: "process_user w user st = (?st', None)"
    using c by (rule process_user_no_commits)
  then have "main_users w (user # users) st = main_users w users ?st'"
    by simp
  with p show "\<exists>st'. process_user w user st = (st', None)
          \<and> files st' = files st
          \<and> user_calendars st' = user_calendars st
          \<and> console st' = console st @ gitlab_console @ [LogNoCommitData (u_name user)]
          \<and> main_users w (user # users) st = main_users w users st'"
    by (intro exI [of _ ?st']) simp
qed

theorem empty_bucket_no_entries_no_files_witness:
  "two_day_bucket \<noteq> [] \<and> distinct (map fst two_day_bucket)
   \<and> [] \<notin> snd ` set two_day_bucket
   \<and> collect_all one_active_world some_user = Inr ([], [])
   \<and> (\<exists>heatmap_data.
          convert_to_heatmap two_day_bucket = Inr heatmap_data
          \<and> map he_date heatmap_data = map strftime_ymd (map fst (sort_key fst two_day_bucket))
          \<and> length heatmap_data = length two_day_bucket
          \<and> (\<forall>entry\<in>set heatmap_data. 0 < he_count entry))
   \<and> (\<exists>st'. process_user one_active_world some_user \<lparr>user_calendars = [], files = [], console = []\<rparr>
                 = (st', None)
          \<and> files st' = []
          \<and> main_users one_active_world [some_user, active_user] \<lparr>user_calendars = [], files = [], console = []\<rparr>
              = main_users one_active_world [active_user] st')"
proof -
  have h1: "two_day_bucket \<noteq> [] \<and> distinct (map fst two_day_bucket)
      \<and> (\<forall>x\<in>set two_day_bucket. snd x \<noteq> [])"
    by (simp add: two_day_bucket_def day_A3_B5_A1_def)
  have h2: "collect_all one_active_world some_user = Inr ([], [])"
    by (simp add: collect_all_def one_active_world_def some_user_def extend_all_def)
  note t = empty_bucket_no_entries_no_files
             [of two_day_bucket one_active_world some_user "[]"
                 "\<lparr>user_calendars = [], files = [], console = []\<rparr>" "[active_user]"]
  from t h1 have "\<exists>heatmap_data.
          convert_to_heatmap two_day_bucket = Inr heatmap_data
          \<and> map he_date heatmap_data = map strftime_ymd (map fst (sort_key fst two_day_bucket))
          \<and> length heatmap_data = length two_day_bucket
          \<and> (\<forall>entry\<in>set heatmap_data. 0 < he_count entry)"
    by blast
  moreover from t h2 have "\<exists>st'. process_user one_active_world some_user \<lparr>user_calendars = [], files = [], console = []\<rparr>
                 = (st', None)
          \<and> files st' = []
          \<and> main_users one_active_world [some_user, active_user] \<lparr>user_calendars = [], files = [], console = []\<rparr>
              = main_users one_active_world [active_user] st'"
    by auto
  moreover from h1 have "[] \<notin> snd ` set two_day_bucket"
    by auto
  ultimately show ?thesis
    using h1 h2 by blast
qed

lemma main_one_active:
  "map fst (files (fst (main one_active_world [some_user, active_user])))
     = [''commit_calendar - seyong.html'', ''commit_calendar_data - seyong.json'',
        ''commit_calendar_all.html'']
   \<and> map fst (user_calendars (fst (main one_active_world [some_user, active_user]))) = [''seyong'']
   \<and> snd (main one_active_world [some_user, active_user]) = None"
  by code_simp

section \<open>Person names and file names\<close>

lemma str_replace_absent:
  "old \<noteq> [] \<Longrightarrow> \<not> sublist old s \<Longrightarrow> str_replace old new s = s"
proof (induction s)
  case Nil
  then show ?case by simp
next
  case (Cons c cs)
  have "\<not> prefix old (c # cs)"
    using Cons.prems(2) by (auto dest: prefix_imp_sublist)
  moreover have "\<not> sublist old cs"
    using Cons.prems(2) by (auto simp: sublist_Cons_right)
  ultimately show ?case
    using Cons by simp
qed

lemma str_replace_prefix:
  "old \<noteq> [] \<Longrightarrow> str_replace old new (old @ s) = new @ str_replace old new s"
  by (cases old) simp_all

lemma stem_html: "p \<noteq> [] \<Longrightarrow> stem (p @ ''.html'') = p"
proof -
  assume p: "p \<noteq> []"
  have "rfind_dot (p @ ''.html'') = Some (length p)"
    by (simp add: rfind_dot_def)
  then show ?thesis
    using p by (simp add: stem_def)
qed

lemma glob_calendar_html_file_name: "glob_calendar (html_file_name display_name)"
  by (simp add: glob_calendar_def html_file_name_def suffix_def)

lemma extracted_name:
  assumes "\<not> sublist ''commit_calendar - '' display_name"
  shows "str_replace ''commit_calendar - '' '''' (stem (html_file_name display_name)) = display_name"
proof -
  have "stem (html_file_name display_name) = ''commit_calendar - '' @ display_name"
    using stem_html [of "''commit_calendar - '' @ display_name"]
    by (simp add: html_file_name_def)
  moreover have "str_replace ''commit_calendar - '' '''' (''commit_calendar - '' @ display_name)
      = '''' @ str_replace ''commit_calendar - '' '''' display_name"
    by (rule str_replace_prefix) simp
  moreover have "str_replace ''commit_calendar - '' '''' display_name = display_name"
    using assms by (intro str_replace_absent) simp_all
  ultimately show ?thesis
    by simp
qed

lemma all_file_not_candidate: "\<not> glob_calendar ''commit_calendar_all.html''"
  by (simp add: glob_calendar_def)

lemma find_calendar_files_paths:
  "cf_path ` set (find_calendar_files lower_fn directory) = {f \<in> set directory. glob_calendar f}"
  by (auto simp: find_calendar_files_def image_iff)

text \<open>
  Claim C10.  Person names survive the way through the file names.  For every display name
  without a path separator that does not contain the text \<open>commit_calendar - \<close>, the file
  the generator writes as \<open>commit_calendar - <name>.html\<close> matches the search pattern of the
  merger, and the name the merger extracts from the file name is the display name.  The
  combined file \<open>commit_calendar_all.html\<close> never matches the pattern and is never taken as
  an input calendar.
\<close>

theorem display_name_round_trip:
  "(CHR ''/'' \<notin> set display_name \<and> \<not> sublist ''commit_calendar - '' display_name \<longrightarrow>
      child_name (html_file_name display_name) = Some (html_file_name display_name)
      \<and> glob_calendar (html_file_name display_name)
      \<and> find_calendar_files lower_fn [html_file_name display_name]
          = [\<lparr>cf_path = html_file_name display_name, cf_name = display_name\<rparr>])
   \<and> \<not> glob_calendar ''commit_calendar_all.html''
   \<and> ''commit_calendar_all.html'' \<notin> cf_path ` set (find_calendar_files lower_fn directory)"
proof (intro conjI impI)
  assume a: "CHR ''/'' \<notin> set display_name \<and> \<not> sublist ''commit_calendar - '' display_name"
  then show "child_name (html_file_name display_name) = Some (html_file_name display_name)"
    by (simp add: child_name_def html_file_name_def)
  show "glob_calendar (html_file_name display_name)"
    by (rule glob_calendar_html_file_name)
  show "find_calendar_files lower_fn [html_file_name display_name]
          = [\<lparr>cf_path = html_file_name display_name, cf_name = display_name\<rparr>]"
    using a by (simp add: find_calendar_files_def glob_calendar_html_file_name extracted_name)
next
  show "\<not> glob_calendar ''commit_calendar_all.html''"
    by (rule all_file_not_candidate)
  show "''commit_calendar_all.html'' \<notin> cf_path ` set (find_calendar_files lower_fn directory)"
    using all_file_not_candidate by (simp add: find_calendar_files_paths)
qed

theorem display_name_round_trip_witness:
  "CHR ''/'' \<notin> set ''Kim J.'' \<and> \<not> sublist ''commit_calendar - '' ''Kim J.''
   \<and> glob_calendar ''commit_calendar - Kim J..html''
   \<and> find_calendar_files ascii_lower [''commit_calendar - Kim J..html'']
       = [\<lparr>cf_path = ''commit_calendar - Kim J..html'', cf_name = ''Kim J.''\<rparr>]"
proof -
  have "\<not> sublist ''commit_calendar - '' ''Kim J.''"
    by code_simp
  then have h: "CHR ''/'' \<notin> set ''Kim J.'' \<and> \<not> sublist ''commit_calendar - '' ''Kim J.''"
    by simp
  have n: "html_file_name ''Kim J.'' = ''commit_calendar - Kim J..html''"
    by (simp add: html_file_name_def)
  from display_name_round_trip
         [where display_name = "''Kim J.''" and lower_fn = ascii_lower and directory = "[]"] h
  show ?thesis
    unfolding n by blast
qed

lemma name_with_pattern_text_not_recovered:
  "find_calendar_files lower_fn [html_file_name ''commit_calendar - a'']
     = [\<lparr>cf_path = ''commit_calendar - commit_calendar - a.html'', cf_name = ''a''\<rparr>]"
  by code_simp

section \<open>Calendar merger\<close>

lemma extract_files_recovered:
  "recovers json_loads dir f \<Longrightarrow>
     map cal_name (fst (extract_files json_loads dir (f # fs)))
       = cf_name f # map cal_name (fst (extract_files json_loads dir fs))"
  by (auto simp: recovers_def Let_def split: prod.splits sum.splits option.splits)

lemma extract_files_not_recovered:
  "\<not> recovers json_loads dir f \<Longrightarrow>
     fst (extract_files json_loads dir (f # fs)) = fst (extract_files json_loads dir fs)
     \<and> (MergeNoData (cf_name f) \<in> set (snd (extract_files json_loads dir (f # fs)))
        \<or> MergeReadError (cf_name f) \<in> set (snd (extract_files json_loads dir (f # fs))))"
  by (auto simp: recovers_def Let_def split: prod.splits sum.splits option.splits)

lemma extract_files_console_grows:
  "set (snd (extract_files json_loads dir fs)) \<subseteq> set (snd (extract_files json_loads dir (f # fs)))"
  by (auto simp: Let_def split: prod.splits sum.splits option.splits)

lemma extract_files_names:
  "map cal_name (fst (extract_files json_loads dir fs))
     = map cf_name (filter (recovers json_loads dir) fs)"
proof (induction fs)
  case Nil
  then show ?case by simp
next
  case (Cons f fs)
  show ?case
  proof (cases "recovers json_loads dir f")
    case True
    then show ?thesis
      using Cons.IH by (simp only: extract_files_recovered filter.simps if_True list.map)
  next
    case False
    then show ?thesis
      using Cons.IH extract_files_not_recovered [OF False, of fs]
      by (simp only: filter.simps if_False)
  qed
qed

lemma extract_files_skipped:
  "f \<in> set fs \<Longrightarrow> \<not> recovers json_loads dir f \<Longrightarrow>
     MergeNoData (cf_name f) \<in> set (snd (extract_files json_loads dir fs))
     \<or> MergeReadError (cf_name f) \<in> set (snd (extract_files json_loads dir fs))"
proof (induction fs)
  case Nil
  then show ?case by simp
next
  case (Cons g fs)
  show ?case
  proof (cases "f = g")
    case True
    then show ?thesis
      using extract_files_not_recovered [of json_loads dir g fs] Cons.prems(2) by simp
  next
    case False
    then have "f \<in> set fs"
      using Cons.prems(1) by simp
    from Cons.IH [OF this Cons.prems(2)] extract_files_console_grows [of json_loads dir fs g]
    show ?thesis
      by blast
  qed
qed

lemma tab_buttons_names:
  "map fst (tab_buttons (merge_generate_tabbed_html calendars year)) = map cal_name calendars"
  by (auto simp: merge_generate_tabbed_html_def enumerate_eq_zip intro!: nth_equalityI)

lemma tab_buttons_active:
  "map snd (tab_buttons (merge_generate_tabbed_html calendars year))
     = map (\<lambda>i. i = 0) [0..<length calendars]"
  by (auto simp: merge_generate_tabbed_html_def enumerate_eq_zip intro!: nth_equalityI)

lemma calendar_keys:
  "map fst (foldl (\<lambda>js cal. AList.update (cal_name cal) (cal_data cal) js) d calendars)
     = map fst d @ first_seen (filter (\<lambda>n. n \<notin> set (map fst d)) (map cal_name calendars))"
proof (induction calendars arbitrary: d)
  case Nil
  then show ?case by simp
next
  case (Cons cal calendars)
  have eq: "filter (\<lambda>x. x \<noteq> cal_name cal \<and> x \<notin> fst ` set d) (map cal_name calendars)
      = filter (\<lambda>x. x \<notin> fst ` set d \<and> x \<noteq> cal_name cal) (map cal_name calendars)"
    by (rule filter_cong) auto
  show ?case
    by (simp add: Cons.IH update_keys eq)
qed

lemma first_seen_distinct: "distinct xs \<Longrightarrow> first_seen xs = xs"
proof (induction xs)
  case Nil
  then show ?case by simp
next
  case (Cons x xs)
  then have "filter (\<lambda>y. y \<noteq> x) xs = xs"
    by (auto intro: filter_True)
  with Cons show ?case by simp
qed

lemma distinct_first_seen: "distinct (first_seen xs)"
  by (induction xs rule: first_seen.induct) (auto simp: set_first_seen)

lemma all_calendar_data_keys:
  "map fst (all_calendar_data (merge_generate_tabbed_html calendars year))
     = first_seen (map cal_name calendars)"
  using calendar_keys [of "[]" calendars] by (simp add: merge_generate_tabbed_html_def)

lemma sorted_recovered:
  "sorted (map (\<lambda>f. lower_fn (cf_name f)) (recovered lower_fn json_loads dir))"
proof -
  have "sorted (map (\<lambda>f. lower_fn (cf_name f)) (find_calendar_files lower_fn (map fst dir)))"
    unfolding find_calendar_files_def by (rule sorted_sort_key)
  then show ?thesis
    unfolding recovered_def filter_map [symmetric] sorted_map by (rule sorted_wrt_filter)
qed

lemma unmatched_not_recovered:
  assumes "dict_get dir (cf_path f) (Inl ExternalError) = Inr html_content"
    and "search_calendar_data html_content = None
         \<or> (\<exists>json_str. search_calendar_data html_content = Some json_str \<and> json_loads json_str = None)"
  shows "\<not> recovers json_loads dir f"
  using assms by (auto simp: recovers_def extract_calendar_data_def)

lemma merge_main_output:
  "output_file (merge_main lower_fn json_loads dir)
     = (if recovered lower_fn json_loads dir = [] then None
        else Some (merge_generate_tabbed_html
                     (fst (extract_files json_loads dir (find_calendar_files lower_fn (map fst dir)))) 2025))"
proof -
  let ?files = "find_calendar_files lower_fn (map fst dir)"
  have n: "map cal_name (fst (extract_files json_loads dir ?files)) = map cf_name (recovered lower_fn json_loads dir)"
    by (simp add: extract_files_names recovered_def)
  then have e: "fst (extract_files json_loads dir ?files) = [] \<longleftrightarrow> recovered lower_fn json_loads dir = []"
    by (metis map_is_Nil_conv)
  show ?thesis
  proof (cases "?files = []")
    case True
    then show ?thesis
      by (simp add: merge_main_def recovered_def)
  next
    case False
    then show ?thesis
      using e by (simp add: merge_main_def Let_def case_prod_beta)
  qed
qed

lemma merge_main_console:
  "merge_console (merge_main lower_fn json_loads dir)
     = (if find_calendar_files lower_fn (map fst dir) = [] then [MergeNoFiles]
        else snd (extract_files json_loads dir (find_calendar_files lower_fn (map fst dir)))
             @ [if recovered lower_fn json_loads dir = [] then MergeNoCalendars else MergeSaved])"
proof -
  let ?files = "find_calendar_files lower_fn (map fst dir)"
  have n: "map cal_name (fst (extract_files json_loads dir ?files)) = map cf_name (recovered lower_fn json_loads dir)"
    by (simp add: extract_files_names recovered_def)
  then have e: "fst (extract_files json_loads dir ?files) = [] \<longleftrightarrow> recovered lower_fn json_loads dir = []"
    by (metis map_is_Nil_conv)
  show ?thesis
    using e by (simp add: merge_main_def Let_def case_prod_beta recovered_def)
qed

text \<open>
  What the merger does for every directory.  It leaves out each candidate file that cannot
  be read, whose \<open>CALENDAR_DATA\<close> assignment cannot be matched or parsed, or whose data is
  the empty object; it reports the file and goes on.  The combined document has exactly one
  tab button per recovered file, in the order of the lower-cased person names, and, when the
  person names of the recovered files are pairwise different, exactly one key in the
  embedded object per recovered file.  The merger stops with a message, and writes nothing,
  only when no file is recovered.
\<close>

lemma merge_main_recovered:
  "(recovered lower_fn json_loads dir = [] \<longrightarrow>
      output_file (merge_main lower_fn json_loads dir) = None
      \<and> (last (merge_console (merge_main lower_fn json_loads dir)) = MergeNoFiles
         \<or> last (merge_console (merge_main lower_fn json_loads dir)) = MergeNoCalendars))
   \<and> (recovered lower_fn json_loads dir \<noteq> [] \<longrightarrow>
      (\<exists>doc. output_file (merge_main lower_fn json_loads dir) = Some doc
         \<and> map fst (tab_buttons doc) = map cf_name (recovered lower_fn json_loads dir)
         \<and> (distinct (map cf_name (recovered lower_fn json_loads dir)) \<longrightarrow>
              map fst (all_calendar_data doc) = map cf_name (recovered lower_fn json_loads dir))))
   \<and> tab_count (merge_main lower_fn json_loads dir) = length (recovered lower_fn json_loads dir)
   \<and> (distinct (map cf_name (recovered lower_fn json_loads dir)) \<longrightarrow>
        key_count (merge_main lower_fn json_loads dir) = length (recovered lower_fn json_loads dir))
   \<and> sorted (map (\<lambda>f. lower_fn (cf_name f)) (recovered lower_fn json_loads dir))
   \<and> (\<forall>f\<in>set (find_calendar_files lower_fn (map fst dir)).
        \<not> recovers json_loads dir f \<longrightarrow>
          f \<notin> set (recovered lower_fn json_loads dir)
          \<and> (MergeNoData (cf_name f) \<in> set (merge_console (merge_main lower_fn json_loads dir))
             \<or> MergeReadError (cf_name f) \<in> set (merge_console (merge_main lower_fn json_loads dir))))
   \<and> (\<forall>f html_content.
        dict_get dir (cf_path f) (Inl ExternalError) = Inr html_content
        \<and> (search_calendar_data html_content = None
           \<or> (\<exists>json_str. search_calendar_data html_content = Some json_str
                  \<and> json_loads json_str = None))
        \<longrightarrow> \<not> recovers json_loads dir f)"
proof -
  let ?files = "find_calendar_files lower_fn (map fst dir)"
  let ?cals = "fst (extract_files json_loads dir ?files)"
  let ?rec = "recovered lower_fn json_loads dir"
  let ?r = "merge_main lower_fn json_loads dir"
  have names: "map cal_name ?cals = map cf_name ?rec"
    by (simp add: extract_files_names recovered_def)
  have c1: "?rec = [] \<longrightarrow> output_file ?r = None
      \<and> (last (merge_console ?r) = MergeNoFiles \<or> last (merge_console ?r) = MergeNoCalendars)"
    by (simp add: merge_main_output merge_main_console)
  have tabs: "map fst (tab_buttons (merge_generate_tabbed_html ?cals 2025)) = map cf_name ?rec"
    by (simp only: tab_buttons_names names)
  have keys: "map fst (all_calendar_data (merge_generate_tabbed_html ?cals 2025))
      = first_seen (map cf_name ?rec)"
    by (simp only: all_calendar_data_keys names)
  have c2: "?rec \<noteq> [] \<longrightarrow>
      (\<exists>doc. output_file ?r = Some doc
         \<and> map fst (tab_buttons doc) = map cf_name ?rec
         \<and> (distinct (map cf_name ?rec) \<longrightarrow> map fst (all_calendar_data doc) = map cf_name ?rec))"
    using tabs keys by (simp add: merge_main_output first_seen_distinct)
  have c3: "tab_count ?r = length ?rec"
  proof (cases "?rec = []")
    case True
    then show ?thesis
      by (simp add: tab_count_def merge_main_output)
  next
    case False
    have "length (map fst (tab_buttons (merge_generate_tabbed_html ?cals 2025))) = length (map cf_name ?rec)"
      by (simp only: tabs)
    then show ?thesis
      using False by (simp add: tab_count_def merge_main_output)
  qed
  have c4: "distinct (map cf_name ?rec) \<longrightarrow> key_count ?r = length ?rec"
  proof
    assume d: "distinct (map cf_name ?rec)"
    show "key_count ?r = length ?rec"
    proof (cases "?rec = []")
      case True
      then show ?thesis
        by (simp add: key_count_def merge_main_output)
    next
      case False
      have "length (map fst (all_calendar_data (merge_generate_tabbed_html ?cals 2025)))
          = length (map cf_name ?rec)"
        using d by (simp only: keys first_seen_distinct)
      then show ?thesis
        using False by (simp add: key_count_def merge_main_output)
    qed
  qed
  have c5: "sorted (map (\<lambda>f. lower_fn (cf_name f)) ?rec)"
    by (rule sorted_recovered)
  have c6: "\<forall>f\<in>set ?files. \<not> recovers json_loads dir f \<longrightarrow>
          f \<notin> set ?rec
          \<and> (MergeNoData (cf_name f) \<in> set (merge_console ?r)
             \<or> MergeReadError (cf_name f) \<in> set (merge_console ?r))"
  proof (intro ballI impI)
    fix f
    assume f: "f \<in> set ?files" and n: "\<not> recovers json_loads dir f"
    then have ne: "?files \<noteq> []"
      by auto
    from extract_files_skipped [OF f n]
    have "MergeNoData (cf_name f) \<in> set (merge_console ?r)
        \<or> MergeReadError (cf_name f) \<in> set (merge_console ?r)"
      using ne by (auto simp: merge_main_console)
    moreover have "f \<notin> set ?rec"
      using n by (simp add: recovered_def)
    ultimately show "f \<notin> set ?rec
          \<and> (MergeNoData (cf_name f) \<in> set (merge_console ?r)
             \<or> MergeReadError (cf_name f) \<in> set (merge_console ?r))"
      by simp
  qed
  have c7: "\<forall>f html_content.
        dict_get dir (cf_path f) (Inl ExternalError) = Inr html_content
        \<and> (search_calendar_data html_content = None
           \<or> (\<exists>json_str. search_calendar_data html_content = Some json_str
                  \<and> json_loads json_str = None))
        \<longrightarrow> \<not> recovers json_loads dir f"
    using unmatched_not_recovered by blast
  show ?thesis
    using c1 c2 c3 c4 c5 c6 c7 by (intro conjI)
qed

text \<open>With three candidate files of which one lacks the data variable, the combined document
  has two tabs and two keys, and the file without data is reported.\<close>

lemma merge_three_files:
  "map cf_name (recovered ascii_lower json_loads_examples dir_three) = [''Al'', ''bo'']
   \<and> tab_count (merge_main ascii_lower json_loads_examples dir_three) = 2
   \<and> key_count (merge_main ascii_lower json_loads_examples dir_three) = 2
   \<and> MergeNoData ''Cy'' \<in> set (merge_console (merge_main ascii_lower json_loads_examples dir_three))"
  by code_simp

lemma same_name_candidates:
  "map (\<lambda>f. \<lparr>cf_path = f, cf_name = str_replace ''commit_calendar - '' '''' (stem f)\<rparr>)
     (filter glob_calendar (map fst dir_same_name))
   = [\<lparr>cf_path = ''commit_calendar - a.html'', cf_name = ''a''\<rparr>,
      \<lparr>cf_path = ''commit_calendar - commit_calendar - a.html'', cf_name = ''a''\<rparr>]"
  by code_simp

lemma same_name_files:
  "find_calendar_files lower_fn (map fst dir_same_name)
   = [\<lparr>cf_path = ''commit_calendar - a.html'', cf_name = ''a''\<rparr>,
      \<lparr>cf_path = ''commit_calendar - commit_calendar - a.html'', cf_name = ''a''\<rparr>]"
  unfolding find_calendar_files_def same_name_candidates by simp

lemma same_name_contents:
  "dict_get dir_same_name ''commit_calendar - a.html'' (Inl ExternalError)
     = Inr (''var CALENDAR_DATA = '' @ json_param_1 @ '';'')"
  "dict_get dir_same_name ''commit_calendar - commit_calendar - a.html'' (Inl ExternalError)
     = Inr (''var CALENDAR_DATA = '' @ json_param_2 @ '';'')"
  by (simp_all add: dir_same_name_def dict_get_def)

lemma same_name_search:
  "search_calendar_data (''var CALENDAR_DATA = '' @ json_param_1 @ '';'') = Some json_param_1"
  "search_calendar_data (''var CALENDAR_DATA = '' @ json_param_2 @ '';'') = Some json_param_2"
  by code_simp+

text \<open>
  Claim C6.  The merger skips each candidate file whose data cannot be matched or parsed,
  and the combined document has exactly one tab button and one key of the embedded object
  per recovered file.  The code does not keep the second part.  \<open>find_calendar_files\<close>
  takes the person name from the file name with \<^verbatim>\<open>replace\<close>, which removes every occurrence
  of the text \<^verbatim>\<open>commit_calendar - \<close> and not only the leading one that its comment
  \<^verbatim>\<open>commit_calendar - xxx.html -> xxx\<close> describes.  The files
  \<^verbatim>\<open>commit_calendar - a.html\<close> and \<^verbatim>\<open>commit_calendar - commit_calendar - a.html\<close> get the
  same person name: whatever \<^verbatim>\<open>str.lower\<close> does, and for every \<^verbatim>\<open>json.loads\<close> that parses
  the two objects to non-empty dictionaries, both files are recovered and two tab buttons
  are written, but the embedded object has the single key \<^verbatim>\<open>a\<close>, with the data of the second
  file.
\<close>

theorem merge_main_same_name:
  "json_loads json_param_1 = Some first_data \<and> first_data \<noteq> []
   \<and> json_loads json_param_2 = Some second_data \<and> second_data \<noteq> [] \<longrightarrow>
     map cf_path (recovered lower_fn json_loads dir_same_name)
       = [''commit_calendar - a.html'', ''commit_calendar - commit_calendar - a.html'']
     \<and> map cf_name (recovered lower_fn json_loads dir_same_name) = [''a'', ''a'']
     \<and> (\<exists>doc. output_file (merge_main lower_fn json_loads dir_same_name) = Some doc
            \<and> map fst (tab_buttons doc) = [''a'', ''a'']
            \<and> all_calendar_data doc = [(''a'', second_data)])
     \<and> tab_count (merge_main lower_fn json_loads dir_same_name) = 2
     \<and> key_count (merge_main lower_fn json_loads dir_same_name) = 1"
proof
  assume a: "json_loads json_param_1 = Some first_data \<and> first_data \<noteq> []
   \<and> json_loads json_param_2 = Some second_data \<and> second_data \<noteq> []"
  define c1 where "c1 = ''var CALENDAR_DATA = '' @ json_param_1 @ '';''"
  define c2 where "c2 = ''var CALENDAR_DATA = '' @ json_param_2 @ '';''"
  have d: "dict_get dir_same_name ''commit_calendar - a.html'' (Inl ExternalError) = Inr c1"
    "dict_get dir_same_name ''commit_calendar - commit_calendar - a.html'' (Inl ExternalError) = Inr c2"
    unfolding c1_def c2_def by (rule same_name_contents)+
  have s: "search_calendar_data c1 = Some json_param_1" "search_calendar_data c2 = Some json_param_2"
    unfolding c1_def c2_def by (rule same_name_search)+
  have x: "extract_calendar_data json_loads c1 = (Some first_data, [])"
    "extract_calendar_data json_loads c2 = (Some second_data, [])"
    using a by (simp_all add: extract_calendar_data_def s)
  have r: "recovered lower_fn json_loads dir_same_name
      = [\<lparr>cf_path = ''commit_calendar - a.html'', cf_name = ''a''\<rparr>,
         \<lparr>cf_path = ''commit_calendar - commit_calendar - a.html'', cf_name = ''a''\<rparr>]"
    using a by (simp add: recovered_def same_name_files recovers_def d x)
  have e: "fst (extract_files json_loads dir_same_name (find_calendar_files lower_fn (map fst dir_same_name)))
      = [\<lparr>cal_name = ''a'', cal_data = first_data\<rparr>, \<lparr>cal_name = ''a'', cal_data = second_data\<rparr>]"
    using a by (simp add: same_name_files d x)
  have o: "output_file (merge_main lower_fn json_loads dir_same_name)
      = Some (merge_generate_tabbed_html
                [\<lparr>cal_name = ''a'', cal_data = first_data\<rparr>, \<lparr>cal_name = ''a'', cal_data = second_data\<rparr>] 2025)"
    by (simp add: merge_main_output r e)
  show "map cf_path (recovered lower_fn json_loads dir_same_name)
       = [''commit_calendar - a.html'', ''commit_calendar - commit_calendar - a.html'']
     \<and> map cf_name (recovered lower_fn json_loads dir_same_name) = [''a'', ''a'']
     \<and> (\<exists>doc. output_file (merge_main lower_fn json_loads dir_same_name) = Some doc
            \<and> map fst (tab_buttons doc) = [''a'', ''a'']
            \<and> all_calendar_data doc = [(''a'', second_data)])
     \<and> tab_count (merge_main lower_fn json_loads dir_same_name) = 2
     \<and> key_count (merge_main lower_fn json_loads dir_same_name) = 1"
    by (simp add: r o tab_count_def key_count_def merge_generate_tabbed_html_def)
qed

theorem merge_main_same_name_witness:
  "json_loads_examples json_param_1 = Some [(''param'', 1)] \<and> [(''param'', 1::nat)] \<noteq> []
   \<and> json_loads_examples json_param_2 = Some [(''param'', 2)] \<and> [(''param'', 2::nat)] \<noteq> []
   \<and> map cf_name (recovered ascii_lower json_loads_examples dir_same_name) = [''a'', ''a'']
   \<and> (\<exists>doc. output_file (merge_main ascii_lower json_loads_examples dir_same_name) = Some doc
          \<and> map fst (tab_buttons doc) = [''a'', ''a'']
          \<and> all_calendar_data doc = [(''a'', [(''param'', 2)])])
   \<and> tab_count (merge_main ascii_lower json_loads_examples dir_same_name) = 2
   \<and> key_count (merge_main ascii_lower json_loads_examples dir_same_name) = 1"
proof -
  have h: "json_loads_examples json_param_1 = Some [(''param'', 1)] \<and> [(''param'', 1::nat)] \<noteq> []
     \<and> json_loads_examples json_param_2 = Some [(''param'', 2)] \<and> [(''param'', 2::nat)] \<noteq> []"
    by code_simp
  from merge_main_same_name
         [where json_loads = json_loads_examples and lower_fn = ascii_lower
            and first_data = "[(''param'', 1)]" and second_data = "[(''param'', 2)]", rule_format, OF h]
       h
  show ?thesis
    by blast
qed

text \<open>White space beyond ASCII between the words of the assignment: U+001C and the
  no-break space U+00A0.\<close>

lemma search_calendar_data_unicode_space:
  "search_calendar_data
     (''var'' @ [CHR 0x1C] @ ''CALENDAR_DATA'' @ [CHR 0xC2, CHR 0xA0] @ ''= {};'') = Some ''{}''"
  by code_simp

lemma merge_empty_object_skipped:
  "search_calendar_data ''var CALENDAR_DATA = {};'' = Some ''{}''
   \<and> json_loads_examples ''{}'' = Some []
   \<and> output_file (merge_main ascii_lower json_loads_examples dir_empty_object) = None
   \<and> merge_console (merge_main ascii_lower json_loads_examples dir_empty_object) = [MergeNoData ''a'', MergeNoCalendars]"
  by code_simp

section \<open>Standalone converter\<close>

lemma re_sub_no_match: "\<not> has_match matcher s \<Longrightarrow> re_sub matcher repl s = s"
  by (induction s) (auto split: option.splits)

lemma sub_head_once_cases: "sub_head_once ins s = s \<or> sublist ins (sub_head_once ins s)"
proof (induction s)
  case Nil
  then show ?case by simp
next
  case (Cons c cs)
  show ?case
  proof (cases "match_head (c # cs)")
    case None
    then show ?thesis
      using Cons by (auto simp: sublist_Cons_right)
  next
    case (Some n)
    have "sublist ins (take n (c # cs) @ ins @ drop n (c # cs))"
      by (rule sublist_appendI)
    then show ?thesis
      using Some by simp
  qed
qed

lemma fonts_in_block: "sublist ''fonts.googleapis.com'' (''\<newline>'' @ google_fonts)"
  by code_simp

lemma rewrite_html_again:
  assumes "\<not> has_bundle_tag (rewrite_html css_content js_content html_content)"
  shows "rewrite_html css_content js_content (rewrite_html css_content js_content html_content)
           = rewrite_html css_content js_content html_content"
proof -
  let ?out = "rewrite_html css_content js_content html_content"
  let ?h3 = "re_sub match_js_script (js_inline js_content)
               (re_sub match_css_link (css_inline css_content)
                  (re_sub match_oswald_link [] html_content))"
  let ?ins = "''\<newline>'' @ google_fonts"
  have out: "?out = (if \<not> sublist ''fonts.googleapis.com'' ?h3 then sub_head_once ?ins ?h3 else ?h3)"
    by (simp add: rewrite_html_def Let_def)
  have same: "re_sub match_js_script (js_inline js_content)
               (re_sub match_css_link (css_inline css_content)
                  (re_sub match_oswald_link [] ?out)) = ?out"
    using assms by (simp add: has_bundle_tag_def re_sub_no_match)
  have again: "rewrite_html css_content js_content ?out
      = (if \<not> sublist ''fonts.googleapis.com'' ?out then sub_head_once ?ins ?out else ?out)"
    unfolding rewrite_html_def [of css_content js_content ?out] Let_def same ..
  show ?thesis
  proof (cases "sublist ''fonts.googleapis.com'' ?out")
    case True
    then show ?thesis
      by (simp only: again if_False not_True_eq_False)
  next
    case False
    have nf: "\<not> sublist ''fonts.googleapis.com'' ?h3"
      using False out by (auto split: if_splits)
    then have o: "?out = sub_head_once ?ins ?h3"
      using out by simp
    have "\<not> sublist ?ins (sub_head_once ?ins ?h3)"
    proof
      assume "sublist ?ins (sub_head_once ?ins ?h3)"
      with fonts_in_block have "sublist ''fonts.googleapis.com'' (sub_head_once ?ins ?h3)"
        by (rule sublist_order.order.trans)
      with False o show False
        by simp
    qed
    with sub_head_once_cases [of ?ins ?h3] have "sub_head_once ?ins ?h3 = ?h3"
      by blast
    with o have "sub_head_once ?ins ?out = ?out"
      by simp
    then show ?thesis
      using False by (simp only: again if_True simp_thms)
  qed
qed

text \<open>
  Claim C7, as the code has it.  When the converted document contains no link to the font
  stylesheet of the bundle, no link to its main stylesheet and no script tag for its script,
  converting that document again removes and replaces nothing and inserts no second Google
  Fonts block, so that converting twice yields the same content as converting once.
\<close>

theorem convert_to_standalone_twice:
  "convert_to_standalone fs = Some converted \<and> \<not> has_bundle_tag converted \<longrightarrow>
     re_sub match_oswald_link [] converted = converted
     \<and> re_sub match_css_link (css_inline css_content) converted = converted
     \<and> re_sub match_js_script (js_inline js_content) converted = converted
     \<and> convert_to_standalone (fs\<lparr>input_html := Some converted\<rparr>) = Some converted"
proof
  assume a: "convert_to_standalone fs = Some converted \<and> \<not> has_bundle_tag converted"
  then obtain html_content where i: "input_html fs = Some html_content"
    by (auto simp: convert_to_standalone_def split: option.splits)
  let ?css = "case neatocal_css fs of None \<Rightarrow> [] | Some css_content \<Rightarrow> css_content"
  let ?js = "case neatocal_js fs of None \<Rightarrow> [] | Some js_content \<Rightarrow> js_content"
  have c: "converted = rewrite_html ?css ?js html_content"
    using a i by (simp add: convert_to_standalone_def)
  have "rewrite_html ?css ?js converted = converted"
    using a unfolding c by (intro rewrite_html_again) simp
  then have "convert_to_standalone (fs\<lparr>input_html := Some converted\<rparr>) = Some converted"
    by (simp add: convert_to_standalone_def)
  moreover have "re_sub match_oswald_link [] converted = converted"
    "re_sub match_css_link (css_inline css_content) converted = converted"
    "re_sub match_js_script (js_inline js_content) converted = converted"
    using a by (simp_all add: has_bundle_tag_def re_sub_no_match)
  ultimately show "re_sub match_oswald_link [] converted = converted
     \<and> re_sub match_css_link (css_inline css_content) converted = converted
     \<and> re_sub match_js_script (js_inline js_content) converted = converted
     \<and> convert_to_standalone (fs\<lparr>input_html := Some converted\<rparr>) = Some converted"
    by simp
qed

theorem convert_to_standalone_twice_witness:
  "convert_to_standalone linked_files = Some linked_converted
   \<and> \<not> has_bundle_tag linked_converted
   \<and> sublist ''fonts.googleapis.com'' linked_converted
   \<and> convert_to_standalone (linked_files\<lparr>input_html := Some linked_converted\<rparr>) = Some linked_converted"
proof -
  have h1: "convert_to_standalone linked_files = Some linked_converted"
    by code_simp
  have h2: "\<not> has_bundle_tag linked_converted"
    by code_simp
  have h3: "sublist ''fonts.googleapis.com'' linked_converted"
    by code_simp
  from convert_to_standalone_twice [of linked_files linked_converted] h1 h2 h3 show ?thesis
    by blast
qed

text \<open>
  Claim C7 as stated, for every input, fails for a text in which one font link is wrapped
  around another: removing the inner link leaves the outer one behind, so the converted
  text still contains a link to the font stylesheet and a second conversion removes it.
\<close>

theorem convert_to_standalone_nested_counterexample:
  "convert_to_standalone \<lparr>input_html = Some nested_link, neatocal_css = None, neatocal_js = None\<rparr>
     = Some ''<link href='neatocal/css/Oswald.css'>''
   \<and> has_match match_oswald_link ''<link href='neatocal/css/Oswald.css'>''
   \<and> convert_to_standalone
         \<lparr>input_html = Some ''<link href='neatocal/css/Oswald.css'>'', neatocal_css = None,
          neatocal_js = None\<rparr>
       = Some []"
  by code_simp

lemma script_text_with_tag_converted_twice:
  "convert_to_standalone
     \<lparr>input_html = Some ''<script src='neatocal/neatocal.js'></script>'', neatocal_css = None,
      neatocal_js = Some ''// <link href='neatocal/css/Oswald.css'> is not needed''\<rparr>
     = Some (js_inline ''// <link href='neatocal/css/Oswald.css'> is not needed'')
   \<and> convert_to_standalone
         \<lparr>input_html = Some (js_inline ''// <link href='neatocal/css/Oswald.css'> is not needed''),
          neatocal_css = None,
          neatocal_js = Some ''// <link href='neatocal/css/Oswald.css'> is not needed''\<rparr>
       = Some (js_inline ''//  is not needed'')"
  by code_simp

section \<open>Date strings\<close>

text \<open>
  The date strings of the entries that \<open>convert_to_heatmap\<close> returns are pairwise different
  and none of them is the key \<open>param\<close>, so the calendar data can always be generated from
  them.
\<close>

lemma dec_small: "n < 10 \<Longrightarrow> dec n = [''0123456789'' ! n]"
  by (subst dec.simps) (simp del: dec.simps)

lemma dec_large: "\<not> n < 10 \<Longrightarrow> dec n = dec (n div 10) @ [''0123456789'' ! (n mod 10)]"
  by (subst dec.simps) (simp del: dec.simps)

lemma digits_table:
  "\<forall>n\<in>set [0..<10]. of_char (''0123456789'' ! n) = 48 + n \<and> ''0123456789'' ! n \<noteq> CHR ''-''"
  by code_simp

lemma digit_value:
  assumes "n < 10"
  shows "of_char (''0123456789'' ! n) = 48 + n"
proof -
  from assms have "n \<in> set [0..<10]"
    by simp
  with digits_table show ?thesis
    by blast
qed

lemma digit_no_dash:
  assumes "n < 10"
  shows "''0123456789'' ! n \<noteq> CHR ''-''"
proof -
  from assms have "n \<in> set [0..<10]"
    by simp
  with digits_table show ?thesis
    by blast
qed

lemma undec_append: "undec (s @ [c]) = 10 * undec s + (of_char c - 48)"
  by (simp add: undec_def)

lemma undec_dec: "undec (dec n) = n"
proof (induction n rule: dec.induct)
  case (1 n)
  show ?case
  proof (cases "n < 10")
    case True
    then show ?thesis
      by (simp add: dec_small undec_def digit_value del: dec.simps)
  next
    case False
    have m: "n mod 10 < 10" by simp
    have "undec (dec n) = 10 * undec (dec (n div 10)) + (of_char (''0123456789'' ! (n mod 10)) - 48)"
      by (simp only: dec_large [OF False] undec_append)
    also have "\<dots> = 10 * (n div 10) + n mod 10"
      by (simp only: "1.IH" [OF False] digit_value [OF m])
    finally show ?thesis by simp
  qed
qed

lemma dec_no_dash: "CHR ''-'' \<notin> set (dec n)"
proof (induction n rule: dec.induct)
  case (1 n)
  show ?case
  proof (cases "n < 10")
    case True
    then show ?thesis
      using digit_no_dash [of n] by (auto simp: dec_small simp del: dec.simps)
  next
    case False
    have m: "n mod 10 < 10" by simp
    show ?thesis
      using "1.IH" [OF False] digit_no_dash [OF m]
      by (auto simp: dec_large [OF False] simp del: dec.simps)
  qed
qed

lemma undec_zeros: "undec (replicate k CHR ''0'' @ s) = undec s"
proof (induction k)
  case 0
  then show ?case by simp
next
  case (Suc k)
  have "undec (replicate (Suc k) CHR ''0'' @ s) = undec (CHR ''0'' # (replicate k CHR ''0'' @ s))"
    by simp
  also have "\<dots> = undec (replicate k CHR ''0'' @ s)"
    by (simp add: undec_def)
  finally show ?case
    using Suc by simp
qed

lemma undec_zfill: "undec (zfill w (dec n)) = n"
  by (simp add: zfill_def undec_zeros undec_dec del: dec.simps)

lemma zfill_no_dash: "CHR ''-'' \<notin> set (zfill w (dec n))"
  using dec_no_dash [of n] by (simp add: zfill_def del: dec.simps)

lemma split_at_dash:
  assumes "a @ CHR ''-'' # r = b @ CHR ''-'' # t" and "CHR ''-'' \<notin> set a" and "CHR ''-'' \<notin> set b"
  shows "a = b \<and> r = t"
proof -
  have "takeWhile (\<lambda>c. c \<noteq> CHR ''-'') (a @ CHR ''-'' # r) = a"
    using assms(2) by (induction a) auto
  moreover have "takeWhile (\<lambda>c. c \<noteq> CHR ''-'') (b @ CHR ''-'' # t) = b"
    using assms(3) by (induction b) auto
  ultimately have "a = b"
    using assms(1) by simp
  then show ?thesis
    using assms(1) by simp
qed

lemma strftime_ymd_inj:
  assumes "strftime_ymd x = strftime_ymd y"
  shows "x = y"
proof -
  obtain y1 m1 d1 where x: "x = (y1, m1, d1)" by (cases x)
  obtain y2 m2 d2 where y: "y = (y2, m2, d2)" by (cases y)
  from assms have e1: "zfill 4 (dec y1) @ CHR ''-'' # (zfill 2 (dec m1) @ CHR ''-'' # zfill 2 (dec d1))
      = zfill 4 (dec y2) @ CHR ''-'' # (zfill 2 (dec m2) @ CHR ''-'' # zfill 2 (dec d2))"
    by (simp add: x y del: dec.simps)
  from split_at_dash [OF e1 zfill_no_dash zfill_no_dash]
  have a: "zfill 4 (dec y1) = zfill 4 (dec y2)"
    and e2: "zfill 2 (dec m1) @ CHR ''-'' # zfill 2 (dec d1) = zfill 2 (dec m2) @ CHR ''-'' # zfill 2 (dec d2)"
    by blast+
  from split_at_dash [OF e2 zfill_no_dash zfill_no_dash]
  have b: "zfill 2 (dec m1) = zfill 2 (dec m2)" and c: "zfill 2 (dec d1) = zfill 2 (dec d2)"
    by blast+
  have "undec (zfill 4 (dec y1)) = undec (zfill 4 (dec y2))"
    by (simp only: a)
  then have "y1 = y2" by (simp only: undec_zfill)
  moreover have "undec (zfill 2 (dec m1)) = undec (zfill 2 (dec m2))"
    by (simp only: b)
  then have "m1 = m2" by (simp only: undec_zfill)
  moreover have "undec (zfill 2 (dec d1)) = undec (zfill 2 (dec d2))"
    by (simp only: c)
  then have "d1 = d2" by (simp only: undec_zfill)
  ultimately show "x = y"
    by (simp add: x y)
qed

lemma strftime_ymd_not_param: "strftime_ymd x \<noteq> ''param''"
proof -
  obtain y m d where x: "x = (y, m, d)" by (cases x)
  have "4 \<le> length (zfill 4 (dec y))"
    by (simp add: zfill_def del: dec.simps)
  then have "5 < length (strftime_ymd x)"
    by (simp add: x del: dec.simps)
  then show ?thesis
    by auto
qed

lemma convert_to_heatmap_well_formed:
  assumes "convert_to_heatmap dc = Inr out" and "distinct (map fst dc)"
  shows "''param'' \<notin> he_date ` set out" and "distinct (map he_date out)"
proof -
  have m: "map he_date out = map strftime_ymd (map fst (sort_key fst dc))"
    using assms by (rule convert_to_heatmap_dates(1))
  have "''param'' \<notin> set (map strftime_ymd (map fst (sort_key fst dc)))"
  proof
    assume "''param'' \<in> set (map strftime_ymd (map fst (sort_key fst dc)))"
    then obtain x where "strftime_ymd x = ''param''"
      by (auto simp del: strftime_ymd.simps)
    with strftime_ymd_not_param show False
      by blast
  qed
  then have "''param'' \<notin> set (map he_date out)"
    unfolding m .
  then show "''param'' \<notin> he_date ` set out"
    by simp
  have d: "distinct (map fst (sort_key fst dc))"
    using assms(2) by (simp add: map_sort_key)
  have "inj_on strftime_ymd (set (map fst (sort_key fst dc)))"
    by (rule inj_onI) (rule strftime_ymd_inj)
  with d have "distinct (map strftime_ymd (map fst (sort_key fst dc)))"
    by (simp only: distinct_map)
  then show "distinct (map he_date out)"
    unfolding m .
qed

lemma generate_after_convert:
  assumes "convert_to_heatmap dc = Inr out" and "distinct (map fst dc)"
  shows "\<exists>neatocal_data. generate_neatocal_data out year = Inr neatocal_data"
proof -
  let ?p = "\<lparr>p_year = year, p_layout = ''aligned-weekdays'', p_cell_height = ''1.5em'',
             p_start_day = 0, p_highlight_color = ''#fef9c3'', p_color_cell = []\<rparr>"
  note wf = convert_to_heatmap_well_formed [OF assms]
  have "map_of [(''param'', Param ?p)] ''param'' = Some (Param ?p)"
    by simp
  moreover have "he_date ` set out \<inter> fst ` set [(''param'', Param ?p)] = {}"
    using wf(1) by auto
  ultimately show ?thesis
    using add_entries_ok [of "[(''param'', Param ?p)]" ?p out] wf
    unfolding generate_neatocal_data_def by blast
qed

end
